theory Spec2Isabelle
  imports Complex_Main "HOL-Library.Word" "HOL-Library.Sublist"
begin

section \<open>The FUJI 500 collector: serial stream to batch files\<close>

text \<open>
  This theory embeds \<^verbatim>\<open>fuji500_collector.py\<close>: the loop of \<^verbatim>\<open>main\<close> that reads
  chunks from the serial link, accumulates them in \<^verbatim>\<open>buf\<close> and writes a batch file when
  the end-of-transmission marker \<^verbatim>\<open>eot\<close> arrives or when the link has been silent for
  \<^verbatim>\<open>IDLE_SECONDS\<close>; the naming of batch files by \<^verbatim>\<open>_new_batch_path\<close>; and the reading
  of the configuration from the environment.

  The environment of the program is made explicit. A read of the link is a pair of the
  chunk returned by \<^verbatim>\<open>ser.read(1024)\<close> (empty on timeout) and the value of
  \<^verbatim>\<open>time.time()\<close> taken right after it; the loop, which has no normal exit, is run over
  a finite list of such reads. Readings of \<^verbatim>\<open>time.time()\<close> are real numbers (the
  rounding of floating-point subtraction is not modelled). The readings of
  \<^verbatim>\<open>datetime.datetime.now()\<close> are given by a function from the number of readings
  taken so far. The landing directory is the ordered log of the appends made to it.
  An input/output failure leaves the loop with an exception and ends the run; the
  runs considered are those of the reads that succeeded.
\<close>

subsection \<open>Bytes and the built-in operations on them\<close>

type_synonym byte = "8 word"
type_synonym bytes = "byte list"

text \<open>
  \<^verbatim>\<open>sep in buf\<close> on byte strings is the test for a contiguous occurrence, which is
  \<^const>\<open>sublist\<close>. \<^verbatim>\<open>buf.split(sep)\<close> cuts at the leftmost occurrence of the
  separator, drops it, and goes on after it. Python raises \<^verbatim>\<open>ValueError\<close> on an empty
  separator; the only call is guarded by \<^verbatim>\<open>if eot and ...\<close>, which is false for an
  empty \<^verbatim>\<open>eot\<close>, and the function below never cuts on an empty separator.
\<close>

function bytes_split :: "'a list \<Rightarrow> 'a list \<Rightarrow> 'a list list" where
  "bytes_split sep [] = [[]]"
| "bytes_split sep (x # xs) =
     (if sep \<noteq> [] \<and> prefix sep (x # xs)
      then [] # bytes_split sep (drop (length sep) (x # xs))
      else (case bytes_split sep xs of
              [] \<Rightarrow> [[x]]
            | p # ps \<Rightarrow> (x # p) # ps))"
  by pat_completeness auto
termination
  by (relation "measure (\<lambda>(sep, xs). length xs)") (auto simp: Suc_lessI)

text \<open>\<^verbatim>\<open>sep.join(parts)\<close>, the inverse of \<^verbatim>\<open>split\<close>.\<close>

fun bytes_join :: "'a list \<Rightarrow> 'a list list \<Rightarrow> 'a list" where
  "bytes_join sep [] = []"
| "bytes_join sep [p] = p"
| "bytes_join sep (p # q # ps) = p @ sep @ bytes_join sep (q # ps)"

subsection \<open>Naming a batch: \<^verbatim>\<open>_new_batch_path\<close>\<close>

text \<open>
  A reading of \<^verbatim>\<open>datetime.datetime.now()\<close>: the fields of a \<^verbatim>\<open>datetime\<close> object, the
  microsecond being its finest one.
\<close>

record datetime =
  dt_year :: nat
  dt_month :: nat
  dt_day :: nat
  dt_hour :: nat
  dt_minute :: nat
  dt_second :: nat
  dt_microsecond :: nat

definition digit :: "nat \<Rightarrow> char" where
  "digit n = ''0123456789'' ! (n mod 10)"

definition pad2 :: "nat \<Rightarrow> string" where
  "pad2 n = [digit (n div 10), digit n]"

definition pad4 :: "nat \<Rightarrow> string" where
  "pad4 n = [digit (n div 1000), digit (n div 100), digit (n div 10), digit n]"

definition pad6 :: "nat \<Rightarrow> string" where
  "pad6 n = [digit (n div 100000), digit (n div 10000), digit (n div 1000),
             digit (n div 100), digit (n div 10), digit n]"

text \<open>\<^verbatim>\<open>strftime("%Y%m%d_%H%M%S_%f")\<close>, for the years 1000 to 9999 of four digits.\<close>

definition strftime :: "datetime \<Rightarrow> string" where
  "strftime d = pad4 (dt_year d) @ pad2 (dt_month d) @ pad2 (dt_day d) @ ''_'' @
                pad2 (dt_hour d) @ pad2 (dt_minute d) @ pad2 (dt_second d) @ ''_'' @
                pad6 (dt_microsecond d)"

text \<open>\<^verbatim>\<open>os.path.join(a, p)\<close> for a relative \<^verbatim>\<open>p\<close> (here it starts with \<^verbatim>\<open>fuji500_\<close>).\<close>

definition path_join :: "string \<Rightarrow> string \<Rightarrow> string" where
  "path_join a p = (if a = [] \<or> last a = CHR ''/'' then a @ p else a @ ''/'' @ p)"

definition new_batch_path :: "string \<Rightarrow> datetime \<Rightarrow> string" where
  "new_batch_path inbox now = path_join inbox (''fuji500_'' @ strftime now @ ''.raw'')"

subsection \<open>The state of the loop and its effects\<close>

datatype trigger = ByEOT | ByIdle

text \<open>
  One append to the landing directory: \<^verbatim>\<open>open(current_path, "ab")\<close>, \<^verbatim>\<open>f.write\<close>, and
  the notice printed after it, which tells the trigger.
\<close>

record flush =
  f_trigger :: trigger
  f_path :: string
  f_data :: bytes

record framer =
  buf :: bytes
  last_data :: real
  current_path :: string
  ticks :: nat
  written :: "flush list"

text \<open>
  What the loop reads and never writes: the globals \<^verbatim>\<open>INBOX\<close> and \<^verbatim>\<open>IDLE_SECONDS\<close>, and
  the local \<^verbatim>\<open>eot\<close> of \<^verbatim>\<open>main\<close>.
\<close>

record framing =
  INBOX :: string
  IDLE_SECONDS :: real

record policy = framing +
  eot :: "bytes option"

type_synonym clock = "nat \<Rightarrow> datetime"

definition write_batch :: "trigger \<Rightarrow> bytes \<Rightarrow> framer \<Rightarrow> framer" where
  "write_batch tr bs st =
     st\<lparr>written := written st @ [\<lparr>f_trigger = tr, f_path = current_path st, f_data = bs\<rparr>]\<rparr>"

definition rotate_path :: "policy \<Rightarrow> clock \<Rightarrow> framer \<Rightarrow> framer" where
  "rotate_path cfg clk st =
     st\<lparr>current_path := new_batch_path (INBOX cfg) (clk (ticks st)), ticks := Suc (ticks st)\<rparr>"

text \<open>The loop \<^verbatim>\<open>for part in parts[:-1]\<close>; the caller passes \<^verbatim>\<open>parts[:-1]\<close>.\<close>

fun flush_parts :: "policy \<Rightarrow> clock \<Rightarrow> bytes list \<Rightarrow> framer \<Rightarrow> framer" where
  "flush_parts cfg clk [] st = st"
| "flush_parts cfg clk (part # parts) st =
     flush_parts cfg clk parts
       (if part \<noteq> [] then rotate_path cfg clk (write_batch ByEOT part st) else st)"

text \<open>\<^verbatim>\<open>if eot and eot in buf\<close>: \<^verbatim>\<open>None\<close> and the empty byte string are false.\<close>

definition eot_found :: "bytes option \<Rightarrow> bytes \<Rightarrow> bool" where
  "eot_found e b = (case e of None \<Rightarrow> False | Some m \<Rightarrow> m \<noteq> [] \<and> sublist m b)"

text \<open>The branch \<^verbatim>\<open>if chunk:\<close> of the loop body.\<close>

definition on_data :: "policy \<Rightarrow> clock \<Rightarrow> framer \<Rightarrow> bytes \<Rightarrow> real \<Rightarrow> framer" where
  "on_data cfg clk st chunk now =
     (let st1 = st\<lparr>buf := buf st @ chunk, last_data := now\<rparr>
      in if eot_found (eot cfg) (buf st1)
         then (let parts = bytes_split (the (eot cfg)) (buf st1)
               in (flush_parts cfg clk (butlast parts) st1)\<lparr>buf := last parts\<rparr>)
         else st1)"

text \<open>The branch \<^verbatim>\<open>else:\<close> of the loop body; the sleep changes no variable.\<close>

definition on_timeout :: "policy \<Rightarrow> clock \<Rightarrow> framer \<Rightarrow> real \<Rightarrow> framer" where
  "on_timeout cfg clk st now =
     (if buf st \<noteq> [] \<and> now - last_data st \<ge> IDLE_SECONDS cfg
      then (rotate_path cfg clk (write_batch ByIdle (buf st) st))\<lparr>buf := []\<rparr>
      else st)"

text \<open>One iteration of \<^verbatim>\<open>while True\<close>, on the chunk read and the time after the read.\<close>

definition step :: "policy \<Rightarrow> clock \<Rightarrow> framer \<Rightarrow> bytes \<times> real \<Rightarrow> framer" where
  "step cfg clk st ev =
     (case ev of (chunk, now) \<Rightarrow>
        if chunk \<noteq> [] then on_data cfg clk st chunk now else on_timeout cfg clk st now)"

text \<open>The state before the first iteration; \<^verbatim>\<open>t0\<close> is the first \<^verbatim>\<open>time.time()\<close>.\<close>

definition start :: "policy \<Rightarrow> clock \<Rightarrow> real \<Rightarrow> framer" where
  "start cfg clk t0 =
     \<lparr>buf = [], last_data = t0, current_path = new_batch_path (INBOX cfg) (clk 0),
      ticks = 1, written = []\<rparr>"

fun run :: "policy \<Rightarrow> clock \<Rightarrow> framer \<Rightarrow> (bytes \<times> real) list \<Rightarrow> framer" where
  "run cfg clk st [] = st"
| "run cfg clk st (ev # evs) = run cfg clk (step cfg clk st ev) evs"

definition main_loop :: "policy \<Rightarrow> clock \<Rightarrow> real \<Rightarrow> (bytes \<times> real) list \<Rightarrow> framer" where
  "main_loop cfg clk t0 evs = run cfg clk (start cfg clk t0) evs"

text \<open>The content of a batch file: its appends in order (the directory starts without it).\<close>

definition file_content :: "flush list \<Rightarrow> string \<Rightarrow> bytes" where
  "file_content ws p = concat (map f_data (filter (\<lambda>f. f_path f = p) ws))"

text \<open>
  The paths of the batches written by one pass of \<^const>\<open>flush_parts\<close> over \<open>n\<close>
  non-empty parts: the current path, then one new path after each flush.
\<close>

definition batch_paths :: "policy \<Rightarrow> clock \<Rightarrow> framer \<Rightarrow> nat \<Rightarrow> string list" where
  "batch_paths cfg clk st n =
     current_path st # map (\<lambda>i. new_batch_path (INBOX cfg) (clk (ticks st + i))) [0..<n]"

definition eot_flush :: "string \<times> bytes \<Rightarrow> flush" where
  "eot_flush pd = \<lparr>f_trigger = ByEOT, f_path = fst pd, f_data = snd pd\<rparr>"

text \<open>
  \<open>marker_dropped m xs ys\<close>: the byte string \<open>ys\<close> is \<open>xs\<close> with occurrences of the
  marker \<open>m\<close> cut out, one after the other.
\<close>

inductive marker_dropped :: "'a list \<Rightarrow> 'a list \<Rightarrow> 'a list \<Rightarrow> bool" for m :: "'a list" where
  same: "marker_dropped m xs xs"
| cut: "marker_dropped m (a @ b) ys \<Longrightarrow> marker_dropped m (a @ m @ b) ys"

subsection \<open>Configuration read from the environment\<close>

type_synonym environ = "string \<rightharpoonup> string"

text \<open>
  \<^verbatim>\<open>ValueError\<close>, which \<^verbatim>\<open>int\<close>, \<^verbatim>\<open>float\<close> and \<^verbatim>\<open>binascii.unhexlify\<close> raise on a
  malformed string (\<^verbatim>\<open>binascii.Error\<close> is a subclass of it).
\<close>

datatype py_error = ValueError

definition environ_get :: "environ \<Rightarrow> string \<Rightarrow> string \<Rightarrow> string" where
  "environ_get env name dflt = (case env name of None \<Rightarrow> dflt | Some v \<Rightarrow> v)"

text \<open>
  \<^verbatim>\<open>s.strip()\<close> on a string of code points below 256: the white space among them, which
  is dropped at both ends.
\<close>

definition py_isspace :: "char \<Rightarrow> bool" where
  "py_isspace c = (c \<in> set [CHR 0x09, CHR 0x0A, CHR 0x0B, CHR 0x0C, CHR 0x0D,
                              CHR 0x1C, CHR 0x1D, CHR 0x1E, CHR 0x1F, CHR '' '',
                              CHR 0x85, CHR 0xA0])"

definition strip :: "string \<Rightarrow> string" where
  "strip s = rev (dropWhile py_isspace (rev (dropWhile py_isspace s)))"

text \<open>
  The conversions of the interpreter that the module applies to the texts of the
  environment are parameters of the model: \<open>int_of py s\<close> is the number that \<^verbatim>\<open>int(s)\<close>
  returns and \<open>None\<close> where it raises \<^verbatim>\<open>ValueError\<close>, \<open>float_of py s\<close> the same for
  \<^verbatim>\<open>float(s)\<close>, \<open>float_str py x\<close> is \<^verbatim>\<open>str(x)\<close> of a float and \<open>strip_of py s\<close> is
  \<^verbatim>\<open>s.strip()\<close>.
\<close>

record builtins =
  int_of :: "string \<Rightarrow> int option"
  float_of :: "string \<Rightarrow> real option"
  float_str :: "real \<Rightarrow> string"
  strip_of :: "string \<Rightarrow> string"

text \<open>\<^verbatim>\<open>str(n)\<close> of an integer, used for the default handed to \<^verbatim>\<open>os.environ.get\<close>.\<close>

function str_nat :: "nat \<Rightarrow> string" where
  "str_nat n = (if n < 10 then [digit n] else str_nat (n div 10) @ [digit n])"
  by pat_completeness auto
termination
  by (relation "measure (\<lambda>n. n)") auto

declare str_nat.simps [simp del]

definition py_str :: "int \<Rightarrow> string" where
  "py_str i = (if i < 0 then CHR ''-'' # str_nat (nat (- i)) else str_nat (nat i))"

text \<open>\<^verbatim>\<open>except Exception\<close> catches the \<^verbatim>\<open>ValueError\<close> of the conversion.\<close>

definition get_env_int :: "builtins \<Rightarrow> environ \<Rightarrow> string \<Rightarrow> int \<Rightarrow> int" where
  "get_env_int py env name dflt =
     (case int_of py (environ_get env name (py_str dflt)) of
        None \<Rightarrow> dflt
      | Some v \<Rightarrow> v)"

definition get_env_float :: "builtins \<Rightarrow> environ \<Rightarrow> string \<Rightarrow> real \<Rightarrow> real" where
  "get_env_float py env name dflt =
     (case float_of py (environ_get env name (float_str py dflt)) of
        None \<Rightarrow> dflt
      | Some v \<Rightarrow> v)"

text \<open>\<^verbatim>\<open>str.upper\<close> on the letters of ASCII.\<close>

definition upper_char :: "char \<Rightarrow> char" where
  "upper_char c =
     (case map_of (zip ''abcdefghijklmnopqrstuvwxyz'' ''ABCDEFGHIJKLMNOPQRSTUVWXYZ'') c of
        None \<Rightarrow> c
      | Some u \<Rightarrow> u)"

definition upper :: "string \<Rightarrow> string" where
  "upper s = map upper_char s"

text \<open>
  The module's globals: \<^verbatim>\<open>INBOX\<close> and \<^verbatim>\<open>IDLE_SECONDS\<close>, which the loop reads, and
  the others.
\<close>

record settings = framing +
  PORT :: string
  BAUD :: int
  BYTESIZE :: int
  PARITY :: string
  STOPBITS :: real
  TIMEOUT :: real
  EOT_HEX :: string
  RTSCTS :: bool
  DSRDTR :: bool

text \<open>
  The assignments at import. Only \<^verbatim>\<open>STOPBITS\<close> is converted outside a
  \<^verbatim>\<open>try\<close>: a malformed value of it raises \<^verbatim>\<open>ValueError\<close> and the module does not load.
\<close>

definition load_settings :: "builtins \<Rightarrow> environ \<Rightarrow> py_error + settings" where
  "load_settings py env =
     (case float_of py (environ_get env ''FUJI500_STOPBITS'' ''1'') of
        None \<Rightarrow> Inl ValueError
      | Some sb \<Rightarrow> Inr
         \<lparr>INBOX = environ_get env ''FUJI500_INBOX'' ''/var/senaite/inbox/fuji500'',
          IDLE_SECONDS = get_env_float py env ''FUJI500_IDLE_SECONDS'' 1.5,
          PORT = environ_get env ''FUJI500_PORT'' ''/dev/ttyUSB0'',
          BAUD = get_env_int py env ''FUJI500_BAUD'' 9600,
          BYTESIZE = get_env_int py env ''FUJI500_BYTESIZE'' 8,
          PARITY = upper (environ_get env ''FUJI500_PARITY'' ''N''),
          STOPBITS = sb,
          TIMEOUT = get_env_float py env ''FUJI500_TIMEOUT'' 2.0,
          EOT_HEX = strip_of py (environ_get env ''FUJI500_EOT_HEX'' []),
          RTSCTS = (get_env_int py env ''FUJI500_RTSCTS'' 0 \<noteq> 0),
          DSRDTR = (get_env_int py env ''FUJI500_DSRDTR'' 0 \<noteq> 0)\<rparr>)"

text \<open>The constants of pyserial that \<^verbatim>\<open>_serial_params\<close> selects.\<close>

datatype bytesize_const = FIVEBITS | SIXBITS | SEVENBITS | EIGHTBITS
datatype parity_const = PARITY_NONE | PARITY_EVEN | PARITY_ODD | PARITY_MARK | PARITY_SPACE
datatype stopbits_const = STOPBITS_ONE | STOPBITS_ONE_POINT_FIVE | STOPBITS_TWO

definition parity_map :: "string \<rightharpoonup> parity_const" where
  "parity_map = [''N'' \<mapsto> PARITY_NONE, ''E'' \<mapsto> PARITY_EVEN, ''O'' \<mapsto> PARITY_ODD,
                 ''M'' \<mapsto> PARITY_MARK, ''S'' \<mapsto> PARITY_SPACE]"

definition serial_params :: "settings \<Rightarrow> bytesize_const \<times> parity_const \<times> stopbits_const" where
  "serial_params s =
     (let bytesize = (if BYTESIZE s = 5 then FIVEBITS
                      else if BYTESIZE s = 6 then SIXBITS
                      else if BYTESIZE s = 7 then SEVENBITS
                      else EIGHTBITS);
          parity = (case parity_map (PARITY s) of None \<Rightarrow> PARITY_NONE | Some p \<Rightarrow> p);
          stopbits = (if STOPBITS s = 1 then STOPBITS_ONE
                      else if STOPBITS s = 1.5 then STOPBITS_ONE_POINT_FIVE
                      else STOPBITS_TWO)
      in (bytesize, parity, stopbits))"

subsection \<open>The marker: \<^verbatim>\<open>binascii.unhexlify\<close> and the start of \<^verbatim>\<open>main\<close>\<close>

definition hex_val :: "char \<Rightarrow> nat option" where
  "hex_val = map_of (zip ''0123456789abcdefABCDEF''
                         [0, 1, 2, 3, 4, 5, 6, 7, 8, 9, 10, 11, 12, 13, 14, 15,
                          10, 11, 12, 13, 14, 15])"

fun hex_pairs :: "string \<Rightarrow> py_error + bytes" where
  "hex_pairs (a # b # cs) =
     (case (hex_val a, hex_val b) of
        (Some h, Some l) \<Rightarrow>
          (case hex_pairs cs of Inl e \<Rightarrow> Inl e | Inr bs \<Rightarrow> Inr (of_nat (16 * h + l) # bs))
      | _ \<Rightarrow> Inl ValueError)"
| "hex_pairs cs = Inr []"

text \<open>
  \<^verbatim>\<open>binascii.unhexlify(s)\<close>: an error on a string of odd length and on a character
  that is not a hexadecimal digit (a character outside ASCII is none).
\<close>

definition unhexlify :: "string \<Rightarrow> py_error + bytes" where
  "unhexlify s = (if odd (length s) then Inl ValueError else hex_pairs s)"

text \<open>The warning printed on \<^verbatim>\<open>sys.stderr\<close>, with the rejected text.\<close>

datatype notice = AVISO_EOT_HEX_no_es_valido string

text \<open>
  Lines 134 to 140 of \<^verbatim>\<open>main\<close>: the marker and what was printed on \<^verbatim>\<open>sys.stderr\<close>.
  \<^verbatim>\<open>except Exception\<close> catches every error of \<^verbatim>\<open>unhexlify\<close>.
\<close>

definition prepare_eot :: "string \<Rightarrow> bytes option \<times> notice list" where
  "prepare_eot eot_hex =
     (if eot_hex \<noteq> []
      then (case unhexlify eot_hex of
              Inr bs \<Rightarrow> (Some bs, [])
            | Inl e \<Rightarrow> (None, [AVISO_EOT_HEX_no_es_valido eot_hex]))
      else (None, []))"

definition policy_of :: "settings \<Rightarrow> bytes option \<Rightarrow> policy" where
  "policy_of s e = \<lparr>INBOX = INBOX s, IDLE_SECONDS = IDLE_SECONDS s, eot = e\<rparr>"

text \<open>
  \<^verbatim>\<open>main\<close> from the preparation of the marker on, with the link open: what was printed
  on \<^verbatim>\<open>sys.stderr\<close> and the state of the loop after the given reads.
\<close>

definition main :: "settings \<Rightarrow> clock \<Rightarrow> real \<Rightarrow> (bytes \<times> real) list \<Rightarrow> notice list \<times> framer" where
  "main s clk t0 reads =
     (case prepare_eot (EOT_HEX s) of
        (e, stderr) \<Rightarrow> (stderr, main_loop (policy_of s e) clk t0 reads))"

subsection \<open>Sample inputs\<close>

text \<open>A clock whose successive readings are one microsecond apart, in one second.\<close>

definition sample_clock :: clock where
  "sample_clock n =
     \<lparr>dt_year = 2024, dt_month = 1, dt_day = 2, dt_hour = 3, dt_minute = 4, dt_second = 5,
      dt_microsecond = n\<rparr>"

text \<open>
  A clock that advances in ticks of one millisecond and is read twice in each tick: the
  readings of \<^verbatim>\<open>datetime.now()\<close> number 1 and 2 are the same, as are 3 and 4.
\<close>

definition coarse_clock :: clock where
  "coarse_clock n = sample_clock ((Suc n div 2) * 1000)"

definition sample_policy :: "bytes option \<Rightarrow> policy" where
  "sample_policy e = \<lparr>INBOX = ''/var/senaite/inbox/fuji500'', IDLE_SECONDS = 1.5, eot = e\<rparr>"

subsection \<open>The time of the last arrival of data\<close>

text \<open>
  The spec's activity clock: the time of the last read that yielded data, \<open>t\<close> when
  there was none.
\<close>

fun last_arrival :: "real \<Rightarrow> (bytes \<times> real) list \<Rightarrow> real" where
  "last_arrival t [] = t"
| "last_arrival t ((chunk, now) # evs) = last_arrival (if chunk \<noteq> [] then now else t) evs"

subsection \<open>The bytes of a run\<close>

text \<open>
  The bytes written so far, over all batches in the order of their flushes, and the bytes
  that the reads of a run delivered.
\<close>

definition flushed :: "framer \<Rightarrow> bytes" where
  "flushed st = concat (map f_data (written st))"

definition stream :: "(bytes \<times> real) list \<Rightarrow> bytes" where
  "stream reads = concat (map fst reads)"

text \<open>
  The conversions on the texts that occur in the sample environments and as texts of the
  defaults: \<^verbatim>\<open>int\<close> reads \<^verbatim>\<open>-1\<close>, \<^verbatim>\<open>0\<close>, \<^verbatim>\<open>8\<close>, \<^verbatim>\<open>9\<close> and \<^verbatim>\<open>9600\<close> as these
  numbers, \<^verbatim>\<open>float\<close> reads \<^verbatim>\<open>1\<close>, \<^verbatim>\<open>2.0\<close> and \<^verbatim>\<open>1.5\<close>, and both raise on the words
  \<^verbatim>\<open>fast\<close> and \<^verbatim>\<open>soon\<close>. The tables hold no other text.
\<close>

definition sample_int :: "string \<Rightarrow> int option" where
  "sample_int = [''-1'' \<mapsto> - 1, ''0'' \<mapsto> 0, ''8'' \<mapsto> 8, ''9'' \<mapsto> 9, ''9600'' \<mapsto> 9600]"

definition sample_float :: "string \<Rightarrow> real option" where
  "sample_float = [''1'' \<mapsto> 1, ''2.0'' \<mapsto> 2.0, ''1.5'' \<mapsto> 1.5]"

definition sample_float_str :: "real \<Rightarrow> string" where
  "sample_float_str x = (if x = 2.0 then ''2.0'' else ''1.5'')"

definition sample_builtins :: builtins where
  "sample_builtins =
     \<lparr>int_of = sample_int, float_of = sample_float, float_str = sample_float_str,
      strip_of = strip\<rparr>"

text \<open>The settings of an empty environment, but for the text of the marker.\<close>

definition sample_settings :: "string \<Rightarrow> settings" where
  "sample_settings hex =
     \<lparr>INBOX = ''/var/senaite/inbox/fuji500'', IDLE_SECONDS = 1.5, PORT = ''/dev/ttyUSB0'',
      BAUD = 9600, BYTESIZE = 8, PARITY = ''N'', STOPBITS = 1, TIMEOUT = 2.0,
      EOT_HEX = hex, RTSCTS = False, DSRDTR = False\<rparr>"

text \<open>
  Two environments: one with malformed texts for the baud rate and the read timeout and
  nine data bits, one with the baud rate \<open>-1\<close>.
\<close>

definition malformed_environ :: environ where
  "malformed_environ =
     [''FUJI500_BAUD'' \<mapsto> ''fast'', ''FUJI500_BYTESIZE'' \<mapsto> ''9'',
      ''FUJI500_TIMEOUT'' \<mapsto> ''soon'']"

definition negative_baud_environ :: environ where
  "negative_baud_environ = [''FUJI500_BAUD'' \<mapsto> ''-1'']"

section \<open>Properties\<close>

subsection \<open>Splitting and joining\<close>


lemma bytes_split_not_Nil: "bytes_split sep xs \<noteq> []"
  by (induction sep xs rule: bytes_split.induct) (auto split: list.splits)

lemma bytes_join_Cons: "ps \<noteq> [] \<Longrightarrow> bytes_join sep (p # ps) = p @ sep @ bytes_join sep ps"
  by (cases ps) auto

lemma bytes_join_Cons_hd: "bytes_join sep ((x # p) # ps) = x # bytes_join sep (p # ps)"
  by (cases ps) auto

lemma bytes_join_split: "bytes_join sep (bytes_split sep xs) = xs"
proof (induction sep xs rule: bytes_split.induct)
  case (1 sep)
  show ?case by simp
next
  case (2 sep x xs)
  show ?case
  proof (cases "sep \<noteq> [] \<and> prefix sep (x # xs)")
    case True
    then obtain rest where r: "x # xs = sep @ rest" by (auto simp: prefix_def)
    then have d: "drop (length sep) (x # xs) = rest" by simp
    from True 2(1) d have ih: "bytes_join sep (bytes_split sep rest) = rest" by simp
    from True d have "bytes_split sep (x # xs) = [] # bytes_split sep rest" by simp
    then have "bytes_join sep (bytes_split sep (x # xs)) = sep @ rest"
      using ih by (simp add: bytes_join_Cons bytes_split_not_Nil)
    with r show ?thesis by simp
  next
    case False
    with 2(2) have ih: "bytes_join sep (bytes_split sep xs) = xs" by blast
    obtain p ps where s: "bytes_split sep xs = p # ps"
      using bytes_split_not_Nil [of sep xs] by (cases "bytes_split sep xs") auto
    from False s have "bytes_split sep (x # xs) = (x # p) # ps" by auto
    with s ih show ?thesis by (simp add: bytes_join_Cons_hd)
  qed
qed

lemma hd_split_prefix: "prefix (hd (bytes_split sep xs)) xs"
  by (induction sep xs rule: bytes_split.induct) (auto split: list.splits)

lemma bytes_split_free:
  "sep \<noteq> [] \<Longrightarrow> p \<in> set (bytes_split sep xs) \<Longrightarrow> \<not> sublist sep p"
proof (induction sep xs arbitrary: p rule: bytes_split.induct)
  case (1 sep)
  then show ?case by simp
next
  case (2 sep x xs)
  show ?case
  proof (cases "prefix sep (x # xs)")
    case True
    with 2(1,3,4) show ?thesis by auto
  next
    case False
    obtain q qs where s: "bytes_split sep xs = q # qs"
      using bytes_split_not_Nil [of sep xs] by (cases "bytes_split sep xs") auto
    from False s 2(4) have "p = x # q \<or> p \<in> set qs" by simp
    then show ?thesis
    proof
      assume pq: "p = x # q"
      have "prefix q xs" using hd_split_prefix [of sep xs] s by simp
      then have pre: "prefix (x # q) (x # xs)" by simp
      have "\<not> sublist sep q" using 2(2) [of q] False 2(3) s by simp
      moreover have "\<not> prefix sep (x # q)"
        using pre False prefix_order.trans by blast
      ultimately show ?thesis using pq by (simp add: sublist_Cons_right)
    next
      assume "p \<in> set qs"
      then show ?thesis using 2(2) [of p] False 2(3) s by simp
    qed
  qed
qed

lemma bytes_split_absent: "\<not> sublist sep xs \<Longrightarrow> bytes_split sep xs = [xs]"
  by (induction sep xs rule: bytes_split.induct)
     (auto simp: sublist_Cons_right split: list.splits)

lemma concat_split_single: "concat (bytes_split [b] xs) = filter (\<lambda>x. x \<noteq> b) xs"
  by (induction xs) (auto split: list.splits simp: bytes_split_not_Nil)

lemma marker_dropped_trans:
  "marker_dropped m xs ys \<Longrightarrow> marker_dropped m ys zs \<Longrightarrow> marker_dropped m xs zs"
  by (induction rule: marker_dropped.induct) (auto intro: marker_dropped.intros)

lemma marker_dropped_context:
  "marker_dropped m xs ys \<Longrightarrow> marker_dropped m (p @ xs @ s) (p @ ys @ s)"
proof (induction rule: marker_dropped.induct)
  case (same xs)
  show ?case by (rule marker_dropped.same)
next
  case (cut a b ys)
  then have "marker_dropped m ((p @ a) @ (b @ s)) (p @ ys @ s)" by simp
  then have "marker_dropped m ((p @ a) @ m @ (b @ s)) (p @ ys @ s)"
    by (rule marker_dropped.cut)
  then show ?case by simp
qed

lemma marker_dropped_split: "marker_dropped sep xs (concat (bytes_split sep xs))"
proof (induction sep xs rule: bytes_split.induct)
  case (1 sep)
  show ?case by (simp add: marker_dropped.same)
next
  case (2 sep x xs)
  show ?case
  proof (cases "sep \<noteq> [] \<and> prefix sep (x # xs)")
    case True
    then obtain rest where r: "x # xs = sep @ rest" by (auto simp: prefix_def)
    then have d: "drop (length sep) (x # xs) = rest" by simp
    from True 2(1) d have "marker_dropped sep ([] @ rest) (concat (bytes_split sep rest))" by simp
    then have "marker_dropped sep ([] @ sep @ rest) (concat (bytes_split sep rest))"
      by (rule marker_dropped.cut)
    moreover from True d have "bytes_split sep (x # xs) = [] # bytes_split sep rest" by simp
    ultimately show ?thesis using r by simp
  next
    case False
    with 2(2) have ih: "marker_dropped sep xs (concat (bytes_split sep xs))" by blast
    obtain p ps where s: "bytes_split sep xs = p # ps"
      using bytes_split_not_Nil [of sep xs] by (cases "bytes_split sep xs") auto
    from False s have e: "bytes_split sep (x # xs) = (x # p) # ps" by auto
    from marker_dropped_context [OF ih, of "[x]" "[]"] s e show ?thesis by simp
  qed
qed

lemma flush_parts_buf [simp]: "buf (flush_parts cfg clk parts st) = buf st"
  by (induction parts arbitrary: st) (auto simp: rotate_path_def write_batch_def)

lemma flush_parts_last_data [simp]: "last_data (flush_parts cfg clk parts st) = last_data st"
  by (induction parts arbitrary: st) (auto simp: rotate_path_def write_batch_def)

lemma batch_paths_Suc:
  "batch_paths cfg clk st (Suc n) =
     current_path st # batch_paths cfg clk (rotate_path cfg clk (write_batch tr bs st)) n"
  by (simp add: batch_paths_def rotate_path_def write_batch_def map_upt_Suc del: upt_Suc)

lemma flush_parts_written:
  "written (flush_parts cfg clk parts st) =
     written st @ map eot_flush (zip (batch_paths cfg clk st (length (filter (\<lambda>p. p \<noteq> []) parts)))
                                     (filter (\<lambda>p. p \<noteq> []) parts))"
proof (induction parts arbitrary: st)
  case Nil
  show ?case by simp
next
  case (Cons part parts)
  show ?case
  proof (cases "part = []")
    case True
    with Cons show ?thesis by simp
  next
    case False
    then show ?thesis
      by (simp add: Cons batch_paths_Suc [where tr = ByEOT and bs = part])
         (simp add: rotate_path_def write_batch_def eot_flush_def)
  qed
qed

lemma flush_parts_path:
  "current_path (flush_parts cfg clk parts st) =
     last (batch_paths cfg clk st (length (filter (\<lambda>p. p \<noteq> []) parts)))"
proof (induction parts arbitrary: st)
  case Nil
  show ?case by (simp add: batch_paths_def)
next
  case (Cons part parts)
  show ?case
  proof (cases "part = []")
    case True
    with Cons show ?thesis by simp
  next
    case False
    then show ?thesis
      by (simp add: Cons batch_paths_Suc [where tr = ByEOT and bs = part])
         (simp add: batch_paths_def)
  qed
qed

lemma flush_parts_ticks:
  "ticks (flush_parts cfg clk parts st) = ticks st + length (filter (\<lambda>p. p \<noteq> []) parts)"
  by (induction parts arbitrary: st) (auto simp: rotate_path_def write_batch_def)

lemma flush_parts_data:
  "map f_data (written (flush_parts cfg clk parts st)) =
     map f_data (written st) @ filter (\<lambda>p. p \<noteq> []) parts"
  by (induction parts arbitrary: st) (auto simp: rotate_path_def write_batch_def)

lemma concat_filter_nonempty: "concat (filter (\<lambda>p. p \<noteq> []) ps) = concat ps"
  by (induction ps) auto

subsection \<open>Steps of the loop\<close>

lemma step_timeout_empty: "buf st = [] \<Longrightarrow> step cfg clk st ([], now) = st"
  by (simp add: step_def on_timeout_def)

lemma run_timeouts_empty: "buf st = [] \<Longrightarrow> run cfg clk st (map (Pair []) ts) = st"
  by (induction ts) (simp_all add: step_timeout_empty)

lemma step_last_data:
  "last_data (step cfg clk st (chunk, now)) = (if chunk \<noteq> [] then now else last_data st)"
  by (simp add: step_def on_data_def on_timeout_def Let_def rotate_path_def write_batch_def)

lemma step_data_found:
  "eot cfg = Some m \<Longrightarrow> m \<noteq> [] \<Longrightarrow> chunk \<noteq> [] \<Longrightarrow> sublist m (buf st @ chunk) \<Longrightarrow>
   step cfg clk st (chunk, now) =
     (flush_parts cfg clk (butlast (bytes_split m (buf st @ chunk)))
        (st\<lparr>buf := buf st @ chunk, last_data := now\<rparr>))\<lparr>buf := last (bytes_split m (buf st @ chunk))\<rparr>"
  by (simp add: step_def on_data_def eot_found_def Let_def)

lemma step_data_absent:
  "chunk \<noteq> [] \<Longrightarrow> \<not> eot_found (eot cfg) (buf st @ chunk) \<Longrightarrow>
   step cfg clk st (chunk, now) = st\<lparr>buf := buf st @ chunk, last_data := now\<rparr>"
  by (simp add: step_def on_data_def Let_def)

lemma step_timeout:
  "step cfg clk st ([], now) =
     (if buf st \<noteq> [] \<and> IDLE_SECONDS cfg \<le> now - last_data st
      then st\<lparr>buf := [], current_path := new_batch_path (INBOX cfg) (clk (ticks st)),
              ticks := Suc (ticks st),
              written := written st @
                [\<lparr>f_trigger = ByIdle, f_path = current_path st, f_data = buf st\<rparr>]\<rparr>
      else st)"
  by (simp add: step_def on_timeout_def rotate_path_def write_batch_def)

lemma run_timeouts_flush:
  "buf st \<noteq> [] \<Longrightarrow> \<exists>t\<in>set ts. IDLE_SECONDS cfg \<le> t - last_data st \<Longrightarrow>
   written (run cfg clk st (map (Pair []) ts)) =
     written st @ [\<lparr>f_trigger = ByIdle, f_path = current_path st, f_data = buf st\<rparr>]"
proof (induction ts)
  case Nil
  then show ?case by simp
next
  case (Cons t ts)
  show ?case
  proof (cases "IDLE_SECONDS cfg \<le> t - last_data st")
    case True
    with Cons.prems(1) show ?thesis
      by (simp add: step_timeout run_timeouts_empty)
  next
    case False
    with Cons show ?thesis by (simp add: step_timeout)
  qed
qed

lemma step_data_found_written:
  assumes "eot cfg = Some m" "m \<noteq> []" "chunk \<noteq> []" "sublist m (buf st @ chunk)"
  shows "written (step cfg clk st (chunk, now)) =
           written st @ map eot_flush
             (zip (batch_paths cfg clk st
                     (length (filter (\<lambda>p. p \<noteq> []) (butlast (bytes_split m (buf st @ chunk))))))
                  (filter (\<lambda>p. p \<noteq> []) (butlast (bytes_split m (buf st @ chunk)))))"
  by (simp add: step_data_found [OF assms] flush_parts_written) (simp add: batch_paths_def)

lemma step_data_found_path:
  assumes "eot cfg = Some m" "m \<noteq> []" "chunk \<noteq> []" "sublist m (buf st @ chunk)"
  shows "current_path (step cfg clk st (chunk, now)) =
           last (batch_paths cfg clk st
                   (length (filter (\<lambda>p. p \<noteq> []) (butlast (bytes_split m (buf st @ chunk))))))"
  by (simp add: step_data_found [OF assms] flush_parts_path) (simp add: batch_paths_def)

lemma step_data_found_buf:
  assumes "eot cfg = Some m" "m \<noteq> []" "chunk \<noteq> []" "sublist m (buf st @ chunk)"
  shows "buf (step cfg clk st (chunk, now)) = last (bytes_split m (buf st @ chunk))"
  by (simp add: step_data_found [OF assms])

lemma run_eot_1:
  assumes "eot cfg = Some [4]"
  shows "step cfg clk (start cfg clk t0) ([0x41, 0x41, 0x41, 4, 0x42, 0x42, 0x42, 4], now) =
     \<lparr>buf = [], last_data = now, current_path = new_batch_path (INBOX cfg) (clk 2), ticks = 3,
      written = [\<lparr>f_trigger = ByEOT, f_path = new_batch_path (INBOX cfg) (clk 0),
                  f_data = [0x41, 0x41, 0x41]\<rparr>,
                 \<lparr>f_trigger = ByEOT, f_path = new_batch_path (INBOX cfg) (clk 1),
                  f_data = [0x42, 0x42, 0x42]\<rparr>]\<rparr>"
  using assms
  by (simp add: step_def on_data_def eot_found_def start_def sublist_Cons_right Let_def
        rotate_path_def write_batch_def) (simp add: numeral_2_eq_2)

lemma sample_paths_differ:
  "new_batch_path (INBOX (sample_policy e)) (sample_clock 0) \<noteq>
   new_batch_path (INBOX (sample_policy e)) (sample_clock 1)"
  by (simp add: sample_policy_def sample_clock_def new_batch_path_def path_join_def strftime_def
        pad2_def pad4_def pad6_def digit_def)

lemma bytes_join_snoc: "ps \<noteq> [] \<Longrightarrow> bytes_join sep (ps @ [p]) = bytes_join sep ps @ sep @ p"
  by (induction sep ps rule: bytes_join.induct) auto

lemma last_split_suffix:
  assumes "sep \<noteq> []" "sublist sep xs"
  shows "suffix (sep @ last (bytes_split sep xs)) xs"
proof -
  let ?parts = "bytes_split sep xs"
  have ne: "?parts \<noteq> []" by (rule bytes_split_not_Nil)
  have j: "bytes_join sep ?parts = xs" by (rule bytes_join_split)
  have "butlast ?parts \<noteq> []"
  proof
    assume "butlast ?parts = []"
    with ne have one: "?parts = [last ?parts]"
      by (metis append_butlast_last_id append_Nil)
    then have "bytes_join sep ?parts = last ?parts" by (metis bytes_join.simps(2))
    with j have "last ?parts = xs" by simp
    moreover have "\<not> sublist sep (last ?parts)"
      using bytes_split_free [OF assms(1), of "last ?parts" xs] ne by simp
    ultimately show False using assms(2) by simp
  qed
  then have "bytes_join sep (butlast ?parts @ [last ?parts]) =
               bytes_join sep (butlast ?parts) @ sep @ last ?parts"
    by (rule bytes_join_snoc)
  with ne j have "xs = bytes_join sep (butlast ?parts) @ sep @ last ?parts" by simp
  then show ?thesis by (metis suffixI)
qed

lemma step_data_found_data:
  assumes "eot cfg = Some m" "m \<noteq> []" "chunk \<noteq> []" "sublist m (buf st @ chunk)"
  shows "map f_data (written (step cfg clk st (chunk, now))) =
           map f_data (written st) @
             filter (\<lambda>p. p \<noteq> []) (butlast (bytes_split m (buf st @ chunk)))"
  by (simp add: step_data_found [OF assms] flush_parts_data)

lemma step_timeout_early:
  "now - last_data st < IDLE_SECONDS cfg \<Longrightarrow> step cfg clk st ([], now) = st"
  by (simp add: step_timeout)

lemma run_eot_2:
  assumes "eot cfg = Some [4]"
  shows "step cfg clk (start cfg clk t0) ([0x41, 0x41, 0x41, 4, 0x42, 0x42], now) =
     \<lparr>buf = [0x42, 0x42], last_data = now, current_path = new_batch_path (INBOX cfg) (clk 1),
      ticks = 2,
      written = [\<lparr>f_trigger = ByEOT, f_path = new_batch_path (INBOX cfg) (clk 0),
                  f_data = [0x41, 0x41, 0x41]\<rparr>]\<rparr>"
  using assms
  by (simp add: step_def on_data_def eot_found_def start_def sublist_Cons_right Let_def
        rotate_path_def write_batch_def)

subsection \<open>Invariants of a run\<close>

lemma step_marker_free:
  assumes m: "eot cfg = Some m" "m \<noteq> []"
    and b: "\<not> sublist m (buf st)"
    and w: "\<forall>f\<in>set (written st). \<not> sublist m (f_data f)"
  shows "\<not> sublist m (buf (step cfg clk st ev)) \<and>
         (\<forall>f\<in>set (written (step cfg clk st ev)). \<not> sublist m (f_data f))"
proof -
  obtain chunk now where ev: "ev = (chunk, now)" by (cases ev)
  show ?thesis
  proof (cases "chunk = []")
    case True
    with m b w show ?thesis by (simp add: ev step_timeout)
  next
    case False
    show ?thesis
    proof (cases "sublist m (buf st @ chunk)")
      case True
      note f = step_data_found_buf [OF m False True] step_data_found_data [OF m False True]
      have "\<forall>p\<in>set (bytes_split m (buf st @ chunk)). \<not> sublist m p"
        using bytes_split_free [OF m(2)] by blast
      moreover have "last (bytes_split m (buf st @ chunk)) \<in> set (bytes_split m (buf st @ chunk))"
        by (simp add: bytes_split_not_Nil)
      moreover have "set (butlast (bytes_split m (buf st @ chunk))) \<subseteq>
                       set (bytes_split m (buf st @ chunk))"
        by (auto dest: in_set_butlastD)
      moreover from w have "\<forall>d\<in>set (map f_data (written st)). \<not> sublist m d" by simp
      ultimately have "\<not> sublist m (buf (step cfg clk st (chunk, now))) \<and>
          (\<forall>d\<in>set (map f_data (written (step cfg clk st (chunk, now)))). \<not> sublist m d)"
        unfolding f by auto
      then show ?thesis unfolding ev by simp
    next
      case True': False
      then have "\<not> eot_found (eot cfg) (buf st @ chunk)" by (simp add: eot_found_def m)
      with False True' w show ?thesis by (simp add: ev step_data_absent)
    qed
  qed
qed

lemma run_marker_free:
  assumes m: "eot cfg = Some m" "m \<noteq> []"
  shows "\<not> sublist m (buf st) \<Longrightarrow> \<forall>f\<in>set (written st). \<not> sublist m (f_data f) \<Longrightarrow>
         \<not> sublist m (buf (run cfg clk st evs)) \<and>
         (\<forall>f\<in>set (written (run cfg clk st evs)). \<not> sublist m (f_data f))"
proof (induction evs arbitrary: st)
  case Nil
  then show ?case by simp
next
  case (Cons ev evs)
  from step_marker_free [OF m Cons.prems, of clk ev]
  have a: "\<not> sublist m (buf (step cfg clk st ev))"
    and b: "\<forall>f\<in>set (written (step cfg clk st ev)). \<not> sublist m (f_data f)"
    by blast+
  from Cons.IH [OF a b] show ?case by simp
qed

lemma hex_pairs_Nil: "hex_pairs s = Inr [] \<Longrightarrow> length s < 2"
  by (induction s rule: hex_pairs.induct) (auto split: option.splits sum.splits)

lemma unhexlify_not_Nil: "s \<noteq> [] \<Longrightarrow> unhexlify s = Inr bs \<Longrightarrow> bs \<noteq> []"
proof
  assume s: "s \<noteq> []" and u: "unhexlify s = Inr bs" and "bs = []"
  then have "even (length s)" and "hex_pairs s = Inr []"
    by (auto simp: unhexlify_def split: if_splits)
  with hex_pairs_Nil [of s] have "length s = 0"
    by (cases "length s") auto
  with s show False by simp
qed

lemma prepare_eot_Some: "prepare_eot h = (Some m, w) \<Longrightarrow> m \<noteq> [] \<and> unhexlify h = Inr m \<and> w = []"
  by (auto simp: prepare_eot_def split: if_splits sum.splits dest: unhexlify_not_Nil)

lemma step_flushed:
  "flushed (step cfg clk st (chunk, now)) @ buf (step cfg clk st (chunk, now)) =
     flushed st @
       (if chunk \<noteq> [] \<and> eot_found (eot cfg) (buf st @ chunk)
        then concat (bytes_split (the (eot cfg)) (buf st @ chunk))
        else buf st @ chunk)"
proof (cases "chunk = []")
  case True
  then show ?thesis by (simp add: step_timeout flushed_def)
next
  case False
  show ?thesis
  proof (cases "eot_found (eot cfg) (buf st @ chunk)")
    case True
    then obtain m where m: "eot cfg = Some m" "m \<noteq> []" "sublist m (buf st @ chunk)"
      by (auto simp: eot_found_def split: option.splits)
    let ?parts = "bytes_split m (buf st @ chunk)"
    have "concat (filter (\<lambda>p. p \<noteq> []) (butlast ?parts)) @ last ?parts =
            concat (butlast ?parts @ [last ?parts])"
      by (simp add: concat_filter_nonempty)
    also have "\<dots> = concat ?parts" by (simp add: bytes_split_not_Nil)
    finally show ?thesis
      using False True m(1)
      by (simp add: flushed_def step_data_found_buf [OF m(1,2) False m(3)]
            step_data_found_data [OF m(1,2) False m(3)])
  next
    case nf: False
    with False show ?thesis by (simp add: step_data_absent flushed_def)
  qed
qed

lemma run_no_marker:
  "eot cfg = None \<or> eot cfg = Some [] \<Longrightarrow>
   flushed (run cfg clk st evs) @ buf (run cfg clk st evs) = flushed st @ buf st @ stream evs"
proof (induction evs arbitrary: st)
  case Nil
  show ?case by (simp add: stream_def)
next
  case (Cons ev evs)
  obtain chunk now where ev: "ev = (chunk, now)" by (cases ev)
  from Cons.prems have "\<not> eot_found (eot cfg) (buf st @ chunk)"
    by (auto simp: eot_found_def)
  then have "flushed (step cfg clk st ev) @ buf (step cfg clk st ev) = flushed st @ buf st @ chunk"
    by (simp add: ev step_flushed)
  with Cons.IH [OF Cons.prems, of "step cfg clk st ev"] show ?case
    by (simp add: ev stream_def)
qed

lemma step_marker_dropped:
  assumes "eot cfg = Some m"
  shows "marker_dropped m (flushed st @ buf st @ chunk)
           (flushed (step cfg clk st (chunk, now)) @ buf (step cfg clk st (chunk, now)))"
proof (cases "chunk \<noteq> [] \<and> eot_found (eot cfg) (buf st @ chunk)")
  case True
  have "marker_dropped m (flushed st @ (buf st @ chunk) @ [])
          (flushed st @ concat (bytes_split m (buf st @ chunk)) @ [])"
    by (intro marker_dropped_context marker_dropped_split)
  with True assms show ?thesis by (simp add: step_flushed)
next
  case False
  then show ?thesis by (auto simp: step_flushed marker_dropped.same)
qed

lemma run_marker_dropped:
  assumes m: "eot cfg = Some m"
  shows "marker_dropped m (flushed st @ buf st @ stream evs)
           (flushed (run cfg clk st evs) @ buf (run cfg clk st evs))"
proof (induction evs arbitrary: st)
  case Nil
  show ?case by (simp add: stream_def marker_dropped.same)
next
  case (Cons ev evs)
  obtain chunk now where ev: "ev = (chunk, now)" by (cases ev)
  let ?st = "step cfg clk st ev"
  have "marker_dropped m ([] @ (flushed st @ buf st @ chunk) @ stream evs)
          ([] @ (flushed ?st @ buf ?st) @ stream evs)"
    unfolding ev by (intro marker_dropped_context step_marker_dropped m)
  then have "marker_dropped m (flushed st @ buf st @ stream (ev # evs))
               (flushed ?st @ buf ?st @ stream evs)"
    by (simp add: ev stream_def)
  then show ?case
    using Cons.IH [of ?st] by (simp add: marker_dropped_trans)
qed

lemma sublist_single: "sublist [b] xs \<longleftrightarrow> b \<in> set xs"
  by (induction xs) (auto simp: sublist_Cons_right)

lemma run_single_marker:
  assumes m: "eot cfg = Some [b]"
  shows "b \<notin> set (buf st) \<Longrightarrow>
         flushed (run cfg clk st evs) @ buf (run cfg clk st evs) =
           flushed st @ buf st @ filter (\<lambda>x. x \<noteq> b) (stream evs)"
proof (induction evs arbitrary: st)
  case Nil
  show ?case by (simp add: stream_def)
next
  case (Cons ev evs)
  obtain chunk now where ev: "ev = (chunk, now)" by (cases ev)
  let ?st = "step cfg clk st ev"
  have keep: "filter (\<lambda>x. x \<noteq> b) (buf st) = buf st"
    using Cons.prems by (auto simp: filter_id_conv)
  have "flushed ?st @ buf ?st = flushed st @ filter (\<lambda>x. x \<noteq> b) (buf st @ chunk)"
  proof (cases "chunk \<noteq> [] \<and> eot_found (eot cfg) (buf st @ chunk)")
    case True
    with m show ?thesis by (simp add: ev step_flushed concat_split_single)
  next
    case False
    have "chunk = [] \<or> b \<notin> set (buf st @ chunk)"
      using False m by (auto simp: eot_found_def sublist_single)
    then have "filter (\<lambda>x. x \<noteq> b) (buf st @ chunk) = buf st @ chunk"
      using keep by (auto simp: filter_id_conv)
    with False show ?thesis by (auto simp: ev step_flushed)
  qed
  then have s: "flushed ?st @ buf ?st = flushed st @ buf st @ filter (\<lambda>x. x \<noteq> b) chunk"
    by (simp add: keep)
  have "\<not> sublist [b] (buf ?st)"
  proof (cases "chunk = []")
    case True
    with Cons.prems show ?thesis by (simp add: ev step_timeout sublist_single)
  next
    case ne: False
    show ?thesis
    proof (cases "sublist [b] (buf st @ chunk)")
      case True
      have "last (bytes_split [b] (buf st @ chunk)) \<in> set (bytes_split [b] (buf st @ chunk))"
        by (simp add: bytes_split_not_Nil)
      then show ?thesis
        unfolding ev step_data_found_buf [OF m _ ne True, simplified]
        using bytes_split_free [of "[b]"] by blast
    next
      case False
      then have "\<not> eot_found (eot cfg) (buf st @ chunk)" by (simp add: eot_found_def m)
      with False ne show ?thesis by (simp add: ev step_data_absent)
    qed
  qed
  then have "b \<notin> set (buf ?st)" by (simp add: sublist_single)
  from Cons.IH [OF this] s show ?case
    by (simp add: ev stream_def)
qed

lemma start_state: "buf (start cfg clk t0) = []" "written (start cfg clk t0) = []"
  by (simp_all add: start_def)

lemma eot_sample_run:
  "step (sample_policy (Some [4])) sample_clock (start (sample_policy (Some [4])) sample_clock 0)
     ([0x41, 0x41, 0x41, 4, 0x42, 0x42, 0x42, 4], 1) =
     \<lparr>buf = [], last_data = 1,
      current_path = new_batch_path (INBOX (sample_policy (Some [4]))) (sample_clock 2),
      ticks = 3,
      written = [\<lparr>f_trigger = ByEOT,
                  f_path = new_batch_path (INBOX (sample_policy (Some [4]))) (sample_clock 0),
                  f_data = [0x41, 0x41, 0x41]\<rparr>,
                 \<lparr>f_trigger = ByEOT,
                  f_path = new_batch_path (INBOX (sample_policy (Some [4]))) (sample_clock 1),
                  f_data = [0x42, 0x42, 0x42]\<rparr>]\<rparr>"
  by (rule run_eot_1) (simp add: sample_policy_def)

subsection \<open>Runs without a marker\<close>

lemma step_idle_only:
  assumes "eot cfg = None" "\<forall>f\<in>set (written st). f_trigger f = ByIdle"
  shows "\<forall>f\<in>set (written (step cfg clk st ev)). f_trigger f = ByIdle"
proof -
  obtain chunk now where ev: "ev = (chunk, now)" by (cases ev)
  have "\<not> eot_found (eot cfg) (buf st @ chunk)" by (simp add: assms(1) eot_found_def)
  with assms(2) show ?thesis
    by (cases "chunk = []") (simp_all add: ev step_timeout step_data_absent)
qed

lemma run_idle_only:
  assumes "eot cfg = None"
  shows "\<forall>f\<in>set (written st). f_trigger f = ByIdle \<Longrightarrow>
         \<forall>f\<in>set (written (run cfg clk st evs)). f_trigger f = ByIdle"
proof (induction evs arbitrary: st)
  case Nil
  then show ?case by simp
next
  case (Cons ev evs)
  have "\<forall>f\<in>set (written (step cfg clk st ev)). f_trigger f = ByIdle"
    by (rule step_idle_only [OF assms Cons.prems])
  from Cons.IH [OF this] show ?case by simp
qed

lemma main_loop_policy_cong:
  "main_loop (policy_of (s\<lparr>EOT_HEX := h\<rparr>) e) = main_loop (policy_of s e)"
  by (simp add: policy_of_def)

subsection \<open>Reading the environment\<close>

lemma get_env_int_malformed:
  "env name = Some txt \<Longrightarrow> int_of py txt = None \<Longrightarrow> get_env_int py env name dflt = dflt"
  by (simp add: get_env_int_def environ_get_def)

lemma get_env_int_parsed:
  "env name = Some txt \<Longrightarrow> int_of py txt = Some v \<Longrightarrow> get_env_int py env name dflt = v"
  by (simp add: get_env_int_def environ_get_def)

lemma get_env_float_malformed:
  "env name = Some txt \<Longrightarrow> float_of py txt = None \<Longrightarrow>
   get_env_float py env name dflt = dflt"
  by (simp add: get_env_float_def environ_get_def)

lemma get_env_float_parsed:
  "env name = Some txt \<Longrightarrow> float_of py txt = Some x \<Longrightarrow>
   get_env_float py env name dflt = x"
  by (simp add: get_env_float_def environ_get_def)

lemma serial_params_bytesize:
  "fst (serial_params s) =
     (if BYTESIZE s = 5 then FIVEBITS else if BYTESIZE s = 6 then SIXBITS
      else if BYTESIZE s = 7 then SEVENBITS else EIGHTBITS)"
  by (simp add: serial_params_def Let_def)

lemma load_settings_ok:
  "float_of py (environ_get env ''FUJI500_STOPBITS'' ''1'') = Some sb \<Longrightarrow>
   \<exists>s. load_settings py env = Inr s"
  by (simp add: load_settings_def)

lemma load_settings_fields:
  assumes "load_settings py env = Inr s"
  shows "BAUD s = get_env_int py env ''FUJI500_BAUD'' 9600"
    and "BYTESIZE s = get_env_int py env ''FUJI500_BYTESIZE'' 8"
    and "TIMEOUT s = get_env_float py env ''FUJI500_TIMEOUT'' 2.0"
    and "IDLE_SECONDS s = get_env_float py env ''FUJI500_IDLE_SECONDS'' 1.5"
proof -
  from assms obtain sb where "float_of py (environ_get env ''FUJI500_STOPBITS'' ''1'') = Some sb"
    by (cases "float_of py (environ_get env ''FUJI500_STOPBITS'' ''1'')")
       (simp_all add: load_settings_def)
  with assms have s: "s = \<lparr>INBOX = environ_get env ''FUJI500_INBOX'' ''/var/senaite/inbox/fuji500'',
          IDLE_SECONDS = get_env_float py env ''FUJI500_IDLE_SECONDS'' 1.5,
          PORT = environ_get env ''FUJI500_PORT'' ''/dev/ttyUSB0'',
          BAUD = get_env_int py env ''FUJI500_BAUD'' 9600,
          BYTESIZE = get_env_int py env ''FUJI500_BYTESIZE'' 8,
          PARITY = upper (environ_get env ''FUJI500_PARITY'' ''N''),
          STOPBITS = sb,
          TIMEOUT = get_env_float py env ''FUJI500_TIMEOUT'' 2.0,
          EOT_HEX = strip_of py (environ_get env ''FUJI500_EOT_HEX'' []),
          RTSCTS = (get_env_int py env ''FUJI500_RTSCTS'' 0 \<noteq> 0),
          DSRDTR = (get_env_int py env ''FUJI500_DSRDTR'' 0 \<noteq> 0)\<rparr>"
    by (simp add: load_settings_def)
  show "BAUD s = get_env_int py env ''FUJI500_BAUD'' 9600" unfolding s by simp
  show "BYTESIZE s = get_env_int py env ''FUJI500_BYTESIZE'' 8" unfolding s by simp
  show "TIMEOUT s = get_env_float py env ''FUJI500_TIMEOUT'' 2.0"
    unfolding s by simp
  show "IDLE_SECONDS s = get_env_float py env ''FUJI500_IDLE_SECONDS'' 1.5"
    unfolding s by simp
qed

lemma py_str_defaults: "py_str 9600 = ''9600''" "py_str 8 = ''8''" "py_str 0 = ''0''"
  by (simp_all add: py_str_def str_nat.simps [of 9600] str_nat.simps [of 960]
        str_nat.simps [of 96] str_nat.simps [of 9] str_nat.simps [of 8] str_nat.simps [of 0]
        digit_def)

lemma sample_builtins_fields:
  "int_of sample_builtins = sample_int" "float_of sample_builtins = sample_float"
  "float_str sample_builtins = sample_float_str" "strip_of sample_builtins = strip"
  by (simp_all add: sample_builtins_def)

section \<open>The claims\<close>

text \<open>
  C7 (empty-buffer idle no-op). While the buffer is empty, reads that time out change
  nothing, however long the silence lasts: the state after any number of them is the state
  before, so the buffer, the activity clock, the current output path and the batches
  written are the same. A run that never receives data writes no batch.
\<close>

theorem empty_buffer_idle_noop:
  "(buf st = [] \<longrightarrow> run cfg clk st (map (Pair []) ts) = st) \<and>
   written (main_loop cfg clk t0 (map (Pair []) ts)) = []"
  by (simp add: run_timeouts_empty main_loop_def start_def)

theorem empty_buffer_idle_noop_witness:
  "buf (start (sample_policy None) sample_clock 0) = [] \<and>
   run (sample_policy None) sample_clock (start (sample_policy None) sample_clock 0)
       (map (Pair []) [10, 20, 30]) = start (sample_policy None) sample_clock 0"
  using empty_buffer_idle_noop [of "start (sample_policy None) sample_clock 0"
          "sample_policy None" sample_clock "[10, 20, 30]"]
  by (simp add: start_def)

text \<open>
  C9 (activity-clock frame condition). An iteration sets the activity clock
  \<^verbatim>\<open>last_data\<close> to the time of the read when the read yielded data, and leaves it as it
  was otherwise, whether or not the iteration flushed by marker or by idleness. After
  any run the activity clock is the time of the last arrival of data.
\<close>

theorem activity_clock_frame:
  "last_data (step cfg clk st (chunk, now)) = (if chunk \<noteq> [] then now else last_data st) \<and>
   last_data (run cfg clk st evs) = last_arrival (last_data st) evs"
proof
  show "last_data (step cfg clk st (chunk, now)) = (if chunk \<noteq> [] then now else last_data st)"
    by (rule step_last_data)
  show "last_data (run cfg clk st evs) = last_arrival (last_data st) evs"
  proof (induction evs arbitrary: st)
    case Nil
    show ?case by simp
  next
    case (Cons ev evs)
    obtain chunk now where ev: "ev = (chunk, now)" by (cases ev)
    show ?case by (simp add: ev Cons step_last_data)
  qed
qed

text \<open>
  C4 (idle framing), as amended. On an iteration whose read returns no data, the framer
  flushes if and only if the buffer is not empty and the time since the activity clock is
  at least the idle threshold (\<^verbatim>\<open>>=\<close>: it flushes also when the two are equal). The
  flush appends the whole buffer to the current output path, empties the buffer and takes a
  new output path; otherwise the state is unchanged. With no marker in them, the bytes
  \<^verbatim>\<open>ABC\<close> followed by timed-out reads, one of which comes at least the threshold after
  the data, give exactly one batch, which holds \<^verbatim>\<open>ABC\<close>.
\<close>

theorem idle_framing:
  "((written (step cfg clk st ([], now)) \<noteq> written st) =
      (buf st \<noteq> [] \<and> IDLE_SECONDS cfg \<le> now - last_data st)) \<and>
   step cfg clk st ([], now) =
     (if buf st \<noteq> [] \<and> IDLE_SECONDS cfg \<le> now - last_data st
      then st\<lparr>buf := [], current_path := new_batch_path (INBOX cfg) (clk (ticks st)),
              ticks := Suc (ticks st),
              written := written st @
                [\<lparr>f_trigger = ByIdle, f_path = current_path st, f_data = buf st\<rparr>]\<rparr>
      else st) \<and>
   (\<not> eot_found (eot cfg) [0x41, 0x42, 0x43] \<and> (\<exists>t\<in>set ts. IDLE_SECONDS cfg \<le> t - t1) \<longrightarrow>
      written (main_loop cfg clk t0 (([0x41, 0x42, 0x43], t1) # map (Pair []) ts)) =
        [\<lparr>f_trigger = ByIdle, f_path = new_batch_path (INBOX cfg) (clk 0),
          f_data = [0x41, 0x42, 0x43]\<rparr>])"
proof (intro conjI impI)
  show "(written (step cfg clk st ([], now)) \<noteq> written st) =
          (buf st \<noteq> [] \<and> IDLE_SECONDS cfg \<le> now - last_data st)"
    by (simp add: step_timeout)
  show "step cfg clk st ([], now) =
     (if buf st \<noteq> [] \<and> IDLE_SECONDS cfg \<le> now - last_data st
      then st\<lparr>buf := [], current_path := new_batch_path (INBOX cfg) (clk (ticks st)),
              ticks := Suc (ticks st),
              written := written st @
                [\<lparr>f_trigger = ByIdle, f_path = current_path st, f_data = buf st\<rparr>]\<rparr>
      else st)"
    by (rule step_timeout)
next
  assume a: "\<not> eot_found (eot cfg) [0x41, 0x42, 0x43] \<and> (\<exists>t\<in>set ts. IDLE_SECONDS cfg \<le> t - t1)"
  let ?st = "(start cfg clk t0)\<lparr>buf := [0x41, 0x42, 0x43], last_data := t1\<rparr>"
  have s: "step cfg clk (start cfg clk t0) ([0x41, 0x42, 0x43], t1) = ?st"
    using a by (simp add: step_data_absent start_def)
  have "written (run cfg clk ?st (map (Pair []) ts)) =
          written ?st @ [\<lparr>f_trigger = ByIdle, f_path = current_path ?st, f_data = buf ?st\<rparr>]"
    by (rule run_timeouts_flush) (use a in simp_all)
  then show "written (main_loop cfg clk t0 (([0x41, 0x42, 0x43], t1) # map (Pair []) ts)) =
        [\<lparr>f_trigger = ByIdle, f_path = new_batch_path (INBOX cfg) (clk 0),
          f_data = [0x41, 0x42, 0x43]\<rparr>]"
    by (simp add: main_loop_def s) (simp add: start_def)
qed

theorem idle_framing_witness:
  "\<not> eot_found (eot (sample_policy None)) [0x41, 0x42, 0x43] \<and>
   (\<exists>t\<in>set [2, 3]. IDLE_SECONDS (sample_policy None) \<le> t - 1) \<and>
   written (main_loop (sample_policy None) sample_clock 0
              (([0x41, 0x42, 0x43], 1) # map (Pair []) [2, 3])) =
     [\<lparr>f_trigger = ByIdle, f_path = new_batch_path (INBOX (sample_policy None)) (sample_clock 0),
       f_data = [0x41, 0x42, 0x43]\<rparr>]"
  using idle_framing [of "sample_policy None" sample_clock _ _ "[2, 3]" 1 0]
  by (simp add: sample_policy_def eot_found_def)

text \<open>
  The claim as it was stated asks for a time that exceeds the threshold. Data at time
  \<open>0\<close> and a timed-out read at time \<open>1.5\<close>, with the threshold \<open>1.5\<close>: the batch is written,
  and the elapsed time does not exceed the threshold.
\<close>

theorem idle_framing_counterexample:
  "written (main_loop (sample_policy None) sample_clock 0 [([0x41, 0x42, 0x43], 0), ([], 1.5)]) =
     [\<lparr>f_trigger = ByIdle, f_path = new_batch_path (INBOX (sample_policy None)) (sample_clock 0),
       f_data = [0x41, 0x42, 0x43]\<rparr>] \<and>
   \<not> (1.5 - 0 > IDLE_SECONDS (sample_policy None))"
  by (simp add: main_loop_def start_def step_def on_data_def on_timeout_def eot_found_def
        sample_policy_def rotate_path_def write_batch_def Let_def)

text \<open>
  C2 (marker framing). When a read yields data and the marker occurs in the buffer with the
  new bytes appended, the buffer is split at every occurrence of the marker: joining the
  parts with the marker gives the buffer back and no part contains the marker. Each
  non-empty part before a marker is appended as a marker-triggered batch, the first to the
  current output path and each next one to the path generated after the flush before it,
  and the path current after the iteration is the one generated after the last flush. With
  the marker \<^verbatim>\<open>0x04\<close>, one read of \<^verbatim>\<open>AAA\x04BBB\x04\<close> writes two batches, \<^verbatim>\<open>AAA\<close> and
  \<^verbatim>\<open>BBB\<close>, both marker-triggered, and leaves the buffer empty, so that the timed-out reads
  after it write nothing; where the two generated names differ they are two files holding
  \<^verbatim>\<open>AAA\<close> and \<^verbatim>\<open>BBB\<close>.
\<close>

theorem marker_framing:
  "(eot cfg = Some m \<and> m \<noteq> [] \<and> chunk \<noteq> [] \<and> sublist m (buf st @ chunk) \<longrightarrow>
      bytes_join m (bytes_split m (buf st @ chunk)) = buf st @ chunk \<and>
      (\<forall>p\<in>set (bytes_split m (buf st @ chunk)). \<not> sublist m p) \<and>
      written (step cfg clk st (chunk, now)) =
        written st @ map eot_flush
          (zip (batch_paths cfg clk st
                  (length (filter (\<lambda>p. p \<noteq> []) (butlast (bytes_split m (buf st @ chunk))))))
               (filter (\<lambda>p. p \<noteq> []) (butlast (bytes_split m (buf st @ chunk))))) \<and>
      current_path (step cfg clk st (chunk, now)) =
        last (batch_paths cfg clk st
                (length (filter (\<lambda>p. p \<noteq> []) (butlast (bytes_split m (buf st @ chunk))))))) \<and>
   (eot cfg = Some [4] \<longrightarrow>
      written (main_loop cfg clk t0
                 (([0x41, 0x41, 0x41, 4, 0x42, 0x42, 0x42, 4], now) # map (Pair []) ts)) =
        [\<lparr>f_trigger = ByEOT, f_path = new_batch_path (INBOX cfg) (clk 0),
          f_data = [0x41, 0x41, 0x41]\<rparr>,
         \<lparr>f_trigger = ByEOT, f_path = new_batch_path (INBOX cfg) (clk 1),
          f_data = [0x42, 0x42, 0x42]\<rparr>] \<and>
      buf (main_loop cfg clk t0
             (([0x41, 0x41, 0x41, 4, 0x42, 0x42, 0x42, 4], now) # map (Pair []) ts)) = []) \<and>
   (eot cfg = Some [4] \<and>
    new_batch_path (INBOX cfg) (clk 0) \<noteq> new_batch_path (INBOX cfg) (clk 1) \<longrightarrow>
      file_content
        (written (main_loop cfg clk t0
                    (([0x41, 0x41, 0x41, 4, 0x42, 0x42, 0x42, 4], now) # map (Pair []) ts)))
        (new_batch_path (INBOX cfg) (clk 0)) = [0x41, 0x41, 0x41] \<and>
      file_content
        (written (main_loop cfg clk t0
                    (([0x41, 0x41, 0x41, 4, 0x42, 0x42, 0x42, 4], now) # map (Pair []) ts)))
        (new_batch_path (INBOX cfg) (clk 1)) = [0x42, 0x42, 0x42])"
proof (intro conjI impI ballI)
  assume a: "eot cfg = Some m \<and> m \<noteq> [] \<and> chunk \<noteq> [] \<and> sublist m (buf st @ chunk)"
  show "bytes_join m (bytes_split m (buf st @ chunk)) = buf st @ chunk"
    by (rule bytes_join_split)
  show "written (step cfg clk st (chunk, now)) =
        written st @ map eot_flush
          (zip (batch_paths cfg clk st
                  (length (filter (\<lambda>p. p \<noteq> []) (butlast (bytes_split m (buf st @ chunk))))))
               (filter (\<lambda>p. p \<noteq> []) (butlast (bytes_split m (buf st @ chunk)))))"
    using a by (intro step_data_found_written) simp_all
  show "current_path (step cfg clk st (chunk, now)) =
        last (batch_paths cfg clk st
                (length (filter (\<lambda>p. p \<noteq> []) (butlast (bytes_split m (buf st @ chunk))))))"
    using a by (intro step_data_found_path) simp_all
  fix p
  assume "p \<in> set (bytes_split m (buf st @ chunk))"
  with a show "\<not> sublist m p" using bytes_split_free by blast
next
  assume e: "eot cfg = Some [4]"
  show "written (main_loop cfg clk t0
                 (([0x41, 0x41, 0x41, 4, 0x42, 0x42, 0x42, 4], now) # map (Pair []) ts)) =
        [\<lparr>f_trigger = ByEOT, f_path = new_batch_path (INBOX cfg) (clk 0),
          f_data = [0x41, 0x41, 0x41]\<rparr>,
         \<lparr>f_trigger = ByEOT, f_path = new_batch_path (INBOX cfg) (clk 1),
          f_data = [0x42, 0x42, 0x42]\<rparr>]"
    by (simp add: main_loop_def run_eot_1 [OF e] run_timeouts_empty)
  show "buf (main_loop cfg clk t0
             (([0x41, 0x41, 0x41, 4, 0x42, 0x42, 0x42, 4], now) # map (Pair []) ts)) = []"
    by (simp add: main_loop_def run_eot_1 [OF e] run_timeouts_empty)
next
  assume e: "eot cfg = Some [4] \<and>
    new_batch_path (INBOX cfg) (clk 0) \<noteq> new_batch_path (INBOX cfg) (clk 1)"
  then have e1: "eot cfg = Some [4]" by simp
  from e show "file_content
        (written (main_loop cfg clk t0
                    (([0x41, 0x41, 0x41, 4, 0x42, 0x42, 0x42, 4], now) # map (Pair []) ts)))
        (new_batch_path (INBOX cfg) (clk 0)) = [0x41, 0x41, 0x41]"
    by (auto simp add: main_loop_def run_eot_1 [OF e1] run_timeouts_empty file_content_def)
  from e show "file_content
        (written (main_loop cfg clk t0
                    (([0x41, 0x41, 0x41, 4, 0x42, 0x42, 0x42, 4], now) # map (Pair []) ts)))
        (new_batch_path (INBOX cfg) (clk 1)) = [0x42, 0x42, 0x42]"
    by (simp add: main_loop_def run_eot_1 [OF e1] run_timeouts_empty file_content_def)
qed

theorem marker_framing_witness:
  "eot (sample_policy (Some [4])) = Some [4] \<and> [4 :: byte] \<noteq> [] \<and>
   [0x41, 0x41, 0x41, 4, 0x42, 0x42, 0x42, 4 :: byte] \<noteq> [] \<and>
   sublist [4 :: byte] (buf (start (sample_policy (Some [4])) sample_clock 0) @
                          [0x41, 0x41, 0x41, 4, 0x42, 0x42, 0x42, 4]) \<and>
   written (step (sample_policy (Some [4])) sample_clock
              (start (sample_policy (Some [4])) sample_clock 0)
              ([0x41, 0x41, 0x41, 4, 0x42, 0x42, 0x42, 4], 1)) =
     [\<lparr>f_trigger = ByEOT,
       f_path = new_batch_path (INBOX (sample_policy (Some [4]))) (sample_clock 0),
       f_data = [0x41, 0x41, 0x41]\<rparr>,
      \<lparr>f_trigger = ByEOT,
       f_path = new_batch_path (INBOX (sample_policy (Some [4]))) (sample_clock 1),
       f_data = [0x42, 0x42, 0x42]\<rparr>] \<and>
   new_batch_path (INBOX (sample_policy (Some [4]))) (sample_clock 0) \<noteq>
     new_batch_path (INBOX (sample_policy (Some [4]))) (sample_clock 1) \<and>
   file_content
     (written (main_loop (sample_policy (Some [4])) sample_clock 0
                 (([0x41, 0x41, 0x41, 4, 0x42, 0x42, 0x42, 4], 1) # map (Pair []) [2, 3])))
     (new_batch_path (INBOX (sample_policy (Some [4]))) (sample_clock 1)) = [0x42, 0x42, 0x42]"
proof -
  let ?cfg = "sample_policy (Some [4])"
  let ?st = "start ?cfg sample_clock 0"
  let ?chunk = "[0x41, 0x41, 0x41, 4, 0x42, 0x42, 0x42, 4] :: bytes"
  let ?spans = "filter (\<lambda>p. p \<noteq> []) (butlast (bytes_split [4] (buf ?st @ ?chunk)))"
  have h: "eot ?cfg = Some [4] \<and> [4 :: byte] \<noteq> [] \<and> ?chunk \<noteq> [] \<and>
           sublist [4 :: byte] (buf ?st @ ?chunk)"
    by (simp add: sample_policy_def start_def sublist_Cons_right)
  have d: "new_batch_path (INBOX ?cfg) (sample_clock 0) \<noteq>
           new_batch_path (INBOX ?cfg) (sample_clock 1)"
    by (rule sample_paths_differ)
  have s: "?spans = [[0x41, 0x41, 0x41], [0x42, 0x42, 0x42]]"
    by (simp add: start_def)
  have bp: "batch_paths ?cfg sample_clock ?st (length ?spans) =
              [new_batch_path (INBOX ?cfg) (sample_clock 0),
               new_batch_path (INBOX ?cfg) (sample_clock 1),
               new_batch_path (INBOX ?cfg) (sample_clock 2)]"
    unfolding s by (simp add: batch_paths_def start_def numeral_2_eq_2)
  have w0: "written ?st = []"
    by (simp add: start_def)
  note inst = marker_framing [of ?cfg "[4]" ?chunk ?st sample_clock 1 0 "[2, 3]"]
  from inst h have "written (step ?cfg sample_clock ?st (?chunk, 1)) =
      written ?st @ map eot_flush (zip (batch_paths ?cfg sample_clock ?st (length ?spans)) ?spans)"
    by blast
  then have w: "written (step ?cfg sample_clock ?st (?chunk, 1)) =
     [\<lparr>f_trigger = ByEOT, f_path = new_batch_path (INBOX ?cfg) (sample_clock 0),
       f_data = [0x41, 0x41, 0x41]\<rparr>,
      \<lparr>f_trigger = ByEOT, f_path = new_batch_path (INBOX ?cfg) (sample_clock 1),
       f_data = [0x42, 0x42, 0x42]\<rparr>]"
    unfolding bp w0 unfolding s by (simp add: eot_flush_def)
  from inst h d have f: "file_content
     (written (main_loop ?cfg sample_clock 0 ((?chunk, 1) # map (Pair []) [2, 3])))
     (new_batch_path (INBOX ?cfg) (sample_clock 1)) = [0x42, 0x42, 0x42]"
    by blast
  from h d w f show ?thesis by blast
qed

text \<open>
  C3 (partial remainder retained). When a read yields data and the marker occurs in the
  buffer with the new bytes appended, the new buffer is the last part of the split: the
  bytes after the last occurrence of the marker, which hold no marker. That part is not among
  the batches written by the iteration, and a timed-out read that comes before the idle
  threshold has passed since the data leaves the state as it is. With the marker
  \<^verbatim>\<open>0x04\<close>, the bytes \<^verbatim>\<open>AAA\x04BB\<close> and then a timed-out read at least the threshold
  later give two batches in this order: \<^verbatim>\<open>AAA\<close>, marker-triggered, and \<^verbatim>\<open>BB\<close>,
  idle-triggered; before the threshold has passed only \<^verbatim>\<open>AAA\<close> is written and \<^verbatim>\<open>BB\<close>
  is still in the buffer.
\<close>

theorem remainder_retained:
  "(eot cfg = Some m \<and> m \<noteq> [] \<and> chunk \<noteq> [] \<and> sublist m (buf st @ chunk) \<longrightarrow>
      buf (step cfg clk st (chunk, now)) = last (bytes_split m (buf st @ chunk)) \<and>
      suffix (m @ buf (step cfg clk st (chunk, now))) (buf st @ chunk) \<and>
      \<not> sublist m (buf (step cfg clk st (chunk, now))) \<and>
      map f_data (written (step cfg clk st (chunk, now))) =
        map f_data (written st) @
          filter (\<lambda>p. p \<noteq> []) (butlast (bytes_split m (buf st @ chunk))) \<and>
      (later - now < IDLE_SECONDS cfg \<longrightarrow>
         step cfg clk (step cfg clk st (chunk, now)) ([], later) =
           step cfg clk st (chunk, now))) \<and>
   (eot cfg = Some [4] \<and> IDLE_SECONDS cfg \<le> t2 - t1 \<longrightarrow>
      written (main_loop cfg clk t0 [([0x41, 0x41, 0x41, 4, 0x42, 0x42], t1), ([], t2)]) =
        [\<lparr>f_trigger = ByEOT, f_path = new_batch_path (INBOX cfg) (clk 0),
          f_data = [0x41, 0x41, 0x41]\<rparr>,
         \<lparr>f_trigger = ByIdle, f_path = new_batch_path (INBOX cfg) (clk 1),
          f_data = [0x42, 0x42]\<rparr>]) \<and>
   (eot cfg = Some [4] \<and> t2 - t1 < IDLE_SECONDS cfg \<longrightarrow>
      written (main_loop cfg clk t0 [([0x41, 0x41, 0x41, 4, 0x42, 0x42], t1), ([], t2)]) =
        [\<lparr>f_trigger = ByEOT, f_path = new_batch_path (INBOX cfg) (clk 0),
          f_data = [0x41, 0x41, 0x41]\<rparr>] \<and>
      buf (main_loop cfg clk t0 [([0x41, 0x41, 0x41, 4, 0x42, 0x42], t1), ([], t2)]) =
        [0x42, 0x42])"
proof (intro conjI impI)
  assume a: "eot cfg = Some m \<and> m \<noteq> [] \<and> chunk \<noteq> [] \<and> sublist m (buf st @ chunk)"
  then have b: "buf (step cfg clk st (chunk, now)) = last (bytes_split m (buf st @ chunk))"
    by (intro step_data_found_buf) simp_all
  then show "buf (step cfg clk st (chunk, now)) = last (bytes_split m (buf st @ chunk))" .
  from a show "suffix (m @ buf (step cfg clk st (chunk, now))) (buf st @ chunk)"
    unfolding b by (intro last_split_suffix) simp_all
  from a show "\<not> sublist m (buf (step cfg clk st (chunk, now)))"
    unfolding b using bytes_split_free [of m "last (bytes_split m (buf st @ chunk))" "buf st @ chunk"]
    by (simp add: bytes_split_not_Nil)
  from a show "map f_data (written (step cfg clk st (chunk, now))) =
        map f_data (written st) @
          filter (\<lambda>p. p \<noteq> []) (butlast (bytes_split m (buf st @ chunk)))"
    by (intro step_data_found_data) simp_all
  assume "later - now < IDLE_SECONDS cfg"
  with a show "step cfg clk (step cfg clk st (chunk, now)) ([], later) =
           step cfg clk st (chunk, now)"
    by (intro step_timeout_early) (simp add: step_last_data)
next
  assume e: "eot cfg = Some [4] \<and> IDLE_SECONDS cfg \<le> t2 - t1"
  then have e1: "eot cfg = Some [4]" by simp
  from e show "written (main_loop cfg clk t0 [([0x41, 0x41, 0x41, 4, 0x42, 0x42], t1), ([], t2)]) =
        [\<lparr>f_trigger = ByEOT, f_path = new_batch_path (INBOX cfg) (clk 0),
          f_data = [0x41, 0x41, 0x41]\<rparr>,
         \<lparr>f_trigger = ByIdle, f_path = new_batch_path (INBOX cfg) (clk 1),
          f_data = [0x42, 0x42]\<rparr>]"
    by (simp add: main_loop_def run_eot_2 [OF e1] step_timeout)
next
  assume e: "eot cfg = Some [4] \<and> t2 - t1 < IDLE_SECONDS cfg"
  then have e1: "eot cfg = Some [4]" by simp
  from e show "written (main_loop cfg clk t0 [([0x41, 0x41, 0x41, 4, 0x42, 0x42], t1), ([], t2)]) =
        [\<lparr>f_trigger = ByEOT, f_path = new_batch_path (INBOX cfg) (clk 0),
          f_data = [0x41, 0x41, 0x41]\<rparr>]"
    by (simp add: main_loop_def run_eot_2 [OF e1] step_timeout)
  from e show "buf (main_loop cfg clk t0 [([0x41, 0x41, 0x41, 4, 0x42, 0x42], t1), ([], t2)]) =
        [0x42, 0x42]"
    by (simp add: main_loop_def run_eot_2 [OF e1] step_timeout)
qed

theorem remainder_retained_witness:
  "eot (sample_policy (Some [4])) = Some [4] \<and>
   IDLE_SECONDS (sample_policy (Some [4])) \<le> 3 - 1 \<and>
   written (main_loop (sample_policy (Some [4])) sample_clock 0
              [([0x41, 0x41, 0x41, 4, 0x42, 0x42], 1), ([], 3)]) =
     [\<lparr>f_trigger = ByEOT,
       f_path = new_batch_path (INBOX (sample_policy (Some [4]))) (sample_clock 0),
       f_data = [0x41, 0x41, 0x41]\<rparr>,
      \<lparr>f_trigger = ByIdle,
       f_path = new_batch_path (INBOX (sample_policy (Some [4]))) (sample_clock 1),
       f_data = [0x42, 0x42]\<rparr>] \<and>
   [4 :: byte] \<noteq> [] \<and> [0x41, 0x41, 0x41, 4, 0x42, 0x42 :: byte] \<noteq> [] \<and>
   sublist [4 :: byte] (buf (start (sample_policy (Some [4])) sample_clock 0) @
                          [0x41, 0x41, 0x41, 4, 0x42, 0x42]) \<and>
   (2 :: real) - 1 < IDLE_SECONDS (sample_policy (Some [4])) \<and>
   buf (step (sample_policy (Some [4])) sample_clock
          (start (sample_policy (Some [4])) sample_clock 0)
          ([0x41, 0x41, 0x41, 4, 0x42, 0x42], 1)) = [0x42, 0x42] \<and>
   buf (main_loop (sample_policy (Some [4])) sample_clock 0
          [([0x41, 0x41, 0x41, 4, 0x42, 0x42], 1), ([], 2)]) = [0x42, 0x42]"
proof -
  let ?cfg = "sample_policy (Some [4])"
  let ?st = "start ?cfg sample_clock 0"
  let ?chunk = "[0x41, 0x41, 0x41, 4, 0x42, 0x42] :: bytes"
  have h: "eot ?cfg = Some [4] \<and> [4 :: byte] \<noteq> [] \<and> ?chunk \<noteq> [] \<and>
           sublist [4 :: byte] (buf ?st @ ?chunk)"
    by (simp add: sample_policy_def start_def sublist_Cons_right)
  have i1: "IDLE_SECONDS ?cfg \<le> 3 - 1" by (simp add: sample_policy_def)
  have i2: "(2 :: real) - 1 < IDLE_SECONDS ?cfg" by (simp add: sample_policy_def)
  have l: "last (bytes_split [4 :: byte] (buf ?st @ ?chunk)) = [0x42, 0x42]"
    by (simp add: start_def)
  note inst1 = remainder_retained [of ?cfg "[4]" ?chunk ?st sample_clock 1 2 3 1 0]
  note inst2 = remainder_retained [of ?cfg "[4]" ?chunk ?st sample_clock 1 2 2 1 0]
  from inst1 h i1 have a: "written (main_loop ?cfg sample_clock 0 [(?chunk, 1), ([], 3)]) =
     [\<lparr>f_trigger = ByEOT, f_path = new_batch_path (INBOX ?cfg) (sample_clock 0),
       f_data = [0x41, 0x41, 0x41]\<rparr>,
      \<lparr>f_trigger = ByIdle, f_path = new_batch_path (INBOX ?cfg) (sample_clock 1),
       f_data = [0x42, 0x42]\<rparr>]"
    by blast
  from inst1 h have "buf (step ?cfg sample_clock ?st (?chunk, 1)) =
      last (bytes_split [4] (buf ?st @ ?chunk))"
    by blast
  then have b: "buf (step ?cfg sample_clock ?st (?chunk, 1)) = [0x42, 0x42]"
    unfolding l .
  from inst2 h i2 have c: "buf (main_loop ?cfg sample_clock 0 [(?chunk, 1), ([], 2)]) = [0x42, 0x42]"
    by blast
  from h i1 i2 a b c show ?thesis by blast
qed

text \<open>
  C10 (no marker in a batch). With a marker configured, no batch that a run writes, by
  marker or by idleness, contains the marker, and neither does the buffer after the run;
  a marker that \<^verbatim>\<open>main\<close> has parsed from \<^verbatim>\<open>EOT_HEX\<close> is not empty, so that every run of
  \<^verbatim>\<open>main\<close> with a marker is such a run.
\<close>

theorem batches_marker_free:
  "(eot cfg = Some m \<and> m \<noteq> [] \<longrightarrow>
      (\<forall>f\<in>set (written (main_loop cfg clk t0 reads)). \<not> sublist m (f_data f)) \<and>
      \<not> sublist m (buf (main_loop cfg clk t0 reads))) \<and>
   (prepare_eot (EOT_HEX s) = (Some m, w) \<longrightarrow>
      m \<noteq> [] \<and>
      (\<forall>f\<in>set (written (snd (main s clk t0 reads))). \<not> sublist m (f_data f)))"
proof (intro conjI impI)
  assume a: "eot cfg = Some m \<and> m \<noteq> []"
  then have m: "eot cfg = Some m" "m \<noteq> []" by simp_all
  have "\<not> sublist m (buf (start cfg clk t0))"
    using m(2) by (simp add: start_state)
  moreover have "\<forall>f\<in>set (written (start cfg clk t0)). \<not> sublist m (f_data f)"
    by (simp add: start_state)
  ultimately have r: "\<not> sublist m (buf (run cfg clk (start cfg clk t0) reads)) \<and>
      (\<forall>f\<in>set (written (run cfg clk (start cfg clk t0) reads)). \<not> sublist m (f_data f))"
    by (rule run_marker_free [OF m])
  from r show "\<forall>f\<in>set (written (main_loop cfg clk t0 reads)). \<not> sublist m (f_data f)"
    by (simp add: main_loop_def)
  from r show "\<not> sublist m (buf (main_loop cfg clk t0 reads))"
    by (simp add: main_loop_def)
next
  assume p: "prepare_eot (EOT_HEX s) = (Some m, w)"
  then show ne: "m \<noteq> []" by (simp add: prepare_eot_Some)
  let ?cfg = "policy_of s (Some m)"
  have m: "eot ?cfg = Some m" by (simp add: policy_of_def)
  have "\<not> sublist m (buf (start ?cfg clk t0))"
    using ne by (simp add: start_state)
  moreover have "\<forall>f\<in>set (written (start ?cfg clk t0)). \<not> sublist m (f_data f)"
    by (simp add: start_state)
  ultimately have "\<not> sublist m (buf (run ?cfg clk (start ?cfg clk t0) reads)) \<and>
      (\<forall>f\<in>set (written (run ?cfg clk (start ?cfg clk t0) reads)). \<not> sublist m (f_data f))"
    by (rule run_marker_free [OF m ne])
  then show "\<forall>f\<in>set (written (snd (main s clk t0 reads))). \<not> sublist m (f_data f)"
    by (simp add: main_def p main_loop_def)
qed

theorem batches_marker_free_witness:
  "eot (sample_policy (Some [4])) = Some [4] \<and> [4 :: byte] \<noteq> [] \<and>
   \<lparr>f_trigger = ByEOT,
     f_path = new_batch_path (INBOX (sample_policy (Some [4]))) (sample_clock 0),
     f_data = [0x41, 0x41, 0x41]\<rparr>
     \<in> set (written (main_loop (sample_policy (Some [4])) sample_clock 0
                      [([0x41, 0x41, 0x41, 4, 0x42, 0x42, 0x42, 4], 1)])) \<and>
   \<not> sublist [4 :: byte] [0x41, 0x41, 0x41] \<and>
   prepare_eot ''04'' = (Some [4], [])"
proof -
  let ?cfg = "sample_policy (Some [4])"
  let ?reads = "[([0x41, 0x41, 0x41, 4, 0x42, 0x42, 0x42, 4 :: byte], 1 :: real)]"
  let ?f = "\<lparr>f_trigger = ByEOT, f_path = new_batch_path (INBOX ?cfg) (sample_clock 0),
             f_data = [0x41, 0x41, 0x41]\<rparr>"
  have h: "eot ?cfg = Some [4] \<and> [4 :: byte] \<noteq> []"
    by (simp add: sample_policy_def)
  have i: "?f \<in> set (written (main_loop ?cfg sample_clock 0 ?reads))"
    by (simp add: main_loop_def eot_sample_run)
  have p: "prepare_eot ''04'' = (Some [4], [])"
    by (simp add: prepare_eot_def unhexlify_def hex_val_def)
  from batches_marker_free [of ?cfg "[4]" sample_clock 0 ?reads] h
  have "\<forall>f\<in>set (written (main_loop ?cfg sample_clock 0 ?reads)). \<not> sublist [4] (f_data f)"
    by blast
  with i have "\<not> sublist [4 :: byte] (f_data ?f)" by blast
  then have "\<not> sublist [4 :: byte] [0x41, 0x41, 0x41]" by simp
  with h i p show ?thesis by blast
qed

text \<open>
  C1 (round trip), as amended. With no marker configured, the bytes written into the batch
  files, concatenated over all batches in the order of their flushes and followed by the
  bytes still in the buffer, are the bytes of the input: nothing is lost, reordered or
  duplicated. With a marker configured the occurrences of the marker at which the buffer is
  split are dropped and written to no batch: the bytes written followed by the buffer are
  the input with occurrences of the marker cut out, and for a marker of one byte they are
  the input without the bytes equal to the marker. In one iteration that splits, the bytes
  written and the new buffer are the parts of the split, which joined by the marker give the
  old buffer and the bytes read; an iteration that does not split loses and adds nothing.
\<close>

theorem round_trip:
  "(eot cfg = None \<longrightarrow>
      flushed (main_loop cfg clk t0 reads) @ buf (main_loop cfg clk t0 reads) = stream reads) \<and>
   (eot cfg = Some m \<longrightarrow>
      marker_dropped m (stream reads)
        (flushed (main_loop cfg clk t0 reads) @ buf (main_loop cfg clk t0 reads))) \<and>
   (eot cfg = Some [b] \<longrightarrow>
      flushed (main_loop cfg clk t0 reads) @ buf (main_loop cfg clk t0 reads) =
        filter (\<lambda>x. x \<noteq> b) (stream reads)) \<and>
   (eot cfg = Some m \<and> m \<noteq> [] \<and> chunk \<noteq> [] \<and> sublist m (buf st @ chunk) \<longrightarrow>
      flushed (step cfg clk st (chunk, now)) @ buf (step cfg clk st (chunk, now)) =
        flushed st @ concat (bytes_split m (buf st @ chunk)) \<and>
      bytes_join m (bytes_split m (buf st @ chunk)) = buf st @ chunk) \<and>
   (chunk = [] \<or> \<not> eot_found (eot cfg) (buf st @ chunk) \<longrightarrow>
      flushed (step cfg clk st (chunk, now)) @ buf (step cfg clk st (chunk, now)) =
        flushed st @ buf st @ chunk)"
proof (intro conjI impI)
  assume "eot cfg = None"
  then have "eot cfg = None \<or> eot cfg = Some []" by simp
  from run_no_marker [OF this, of clk "start cfg clk t0" reads]
  show "flushed (main_loop cfg clk t0 reads) @ buf (main_loop cfg clk t0 reads) = stream reads"
    by (simp add: main_loop_def start_state flushed_def)
next
  assume "eot cfg = Some m"
  from run_marker_dropped [OF this, of "start cfg clk t0" reads clk]
  show "marker_dropped m (stream reads)
        (flushed (main_loop cfg clk t0 reads) @ buf (main_loop cfg clk t0 reads))"
    by (simp add: main_loop_def start_state flushed_def)
next
  assume "eot cfg = Some [b]"
  from run_single_marker [OF this, of "start cfg clk t0" clk reads]
  show "flushed (main_loop cfg clk t0 reads) @ buf (main_loop cfg clk t0 reads) =
        filter (\<lambda>x. x \<noteq> b) (stream reads)"
    by (simp add: main_loop_def start_state flushed_def)
next
  assume a: "eot cfg = Some m \<and> m \<noteq> [] \<and> chunk \<noteq> [] \<and> sublist m (buf st @ chunk)"
  then have "eot_found (eot cfg) (buf st @ chunk)" by (simp add: eot_found_def)
  with a show "flushed (step cfg clk st (chunk, now)) @ buf (step cfg clk st (chunk, now)) =
        flushed st @ concat (bytes_split m (buf st @ chunk))"
    by (simp add: step_flushed)
  show "bytes_join m (bytes_split m (buf st @ chunk)) = buf st @ chunk"
    by (rule bytes_join_split)
next
  assume "chunk = [] \<or> \<not> eot_found (eot cfg) (buf st @ chunk)"
  then show "flushed (step cfg clk st (chunk, now)) @ buf (step cfg clk st (chunk, now)) =
        flushed st @ buf st @ chunk"
    by (auto simp: step_flushed)
qed

theorem round_trip_witness:
  "eot (sample_policy None) = None \<and>
   flushed (main_loop (sample_policy None) sample_clock 0
              [([0x41, 4, 0x42], 1), ([], 3), ([0x43], 4)]) @
   buf (main_loop (sample_policy None) sample_clock 0
          [([0x41, 4, 0x42], 1), ([], 3), ([0x43], 4)]) = [0x41, 4, 0x42, 0x43] \<and>
   eot (sample_policy (Some [4])) = Some [4] \<and>
   flushed (main_loop (sample_policy (Some [4])) sample_clock 0
              [([0x41, 4, 0x42], 1), ([], 3), ([0x43], 4)]) @
   buf (main_loop (sample_policy (Some [4])) sample_clock 0
          [([0x41, 4, 0x42], 1), ([], 3), ([0x43], 4)]) = [0x41, 0x42, 0x43]"
proof -
  let ?reads = "[([0x41, 4, 0x42 :: byte], 1 :: real), ([], 3), ([0x43], 4)]"
  have n: "eot (sample_policy None) = None" by (simp add: sample_policy_def)
  have e: "eot (sample_policy (Some [4])) = Some [4]" by (simp add: sample_policy_def)
  have s: "stream ?reads = [0x41, 4, 0x42, 0x43]" by (simp add: stream_def)
  from round_trip [of "sample_policy None" sample_clock 0 ?reads] n
  have a: "flushed (main_loop (sample_policy None) sample_clock 0 ?reads) @
           buf (main_loop (sample_policy None) sample_clock 0 ?reads) = stream ?reads"
    by blast
  from round_trip [of "sample_policy (Some [4])" sample_clock 0 ?reads _ 4] e
  have b: "flushed (main_loop (sample_policy (Some [4])) sample_clock 0 ?reads) @
           buf (main_loop (sample_policy (Some [4])) sample_clock 0 ?reads) =
             filter (\<lambda>x. x \<noteq> 4) (stream ?reads)"
    by blast
  from n e a b show ?thesis unfolding s by simp
qed

text \<open>
  The claim as it was stated, with the marker \<^verbatim>\<open>0x04\<close> and one read of
  \<^verbatim>\<open>AAA\x04BBB\x04\<close>: the bytes written are \<^verbatim>\<open>AAABBB\<close>, the buffer is empty, and the
  two marker bytes of the input are in neither.
\<close>

theorem round_trip_counterexample:
  "flushed (main_loop (sample_policy (Some [4])) sample_clock 0
              [([0x41, 0x41, 0x41, 4, 0x42, 0x42, 0x42, 4], 1)]) =
     [0x41, 0x41, 0x41, 0x42, 0x42, 0x42] \<and>
   buf (main_loop (sample_policy (Some [4])) sample_clock 0
          [([0x41, 0x41, 0x41, 4, 0x42, 0x42, 0x42, 4], 1)]) = [] \<and>
   stream [([0x41, 0x41, 0x41, 4, 0x42, 0x42, 0x42, 4], 1)] =
     [0x41, 0x41, 0x41, 4, 0x42, 0x42, 0x42, 4] \<and>
   flushed (main_loop (sample_policy (Some [4])) sample_clock 0
              [([0x41, 0x41, 0x41, 4, 0x42, 0x42, 0x42, 4], 1)]) \<noteq>
     stream [([0x41, 0x41, 0x41, 4, 0x42, 0x42, 0x42, 4], 1)]"
  by (simp add: main_loop_def eot_sample_run flushed_def stream_def)

text \<open>
  C6 (marker configuration fallback). When \<^verbatim>\<open>EOT_HEX\<close> is not valid hexadecimal text,
  that is when \<^verbatim>\<open>unhexlify\<close> raises on it, the start of \<^verbatim>\<open>main\<close> prints the warning once
  and goes on with no marker: \<^verbatim>\<open>main\<close> runs the loop as with an empty \<^verbatim>\<open>EOT_HEX\<close>, a
  read that yields data only appends it to the buffer, and every batch written is
  idle-triggered.
\<close>

theorem marker_fallback:
  assumes "unhexlify (EOT_HEX s) = Inl e"
  shows "prepare_eot (EOT_HEX s) = (None, [AVISO_EOT_HEX_no_es_valido (EOT_HEX s)]) \<and>
         main s clk t0 reads =
           ([AVISO_EOT_HEX_no_es_valido (EOT_HEX s)], main_loop (policy_of s None) clk t0 reads) \<and>
         snd (main s clk t0 reads) = snd (main (s\<lparr>EOT_HEX := []\<rparr>) clk t0 reads) \<and>
         (\<forall>f\<in>set (written (snd (main s clk t0 reads))). f_trigger f = ByIdle) \<and>
         (chunk \<noteq> [] \<longrightarrow>
            step (policy_of s None) clk st (chunk, now) =
              st\<lparr>buf := buf st @ chunk, last_data := now\<rparr>)"
proof -
  from assms have ne: "EOT_HEX s \<noteq> []"
    by (auto simp: unhexlify_def)
  with assms have p: "prepare_eot (EOT_HEX s) = (None, [AVISO_EOT_HEX_no_es_valido (EOT_HEX s)])"
    by (simp add: prepare_eot_def)
  then have m: "main s clk t0 reads =
           ([AVISO_EOT_HEX_no_es_valido (EOT_HEX s)], main_loop (policy_of s None) clk t0 reads)"
    by (simp add: main_def)
  have "main (s\<lparr>EOT_HEX := []\<rparr>) clk t0 reads =
          ([], main_loop (policy_of s None) clk t0 reads)"
    by (simp add: main_def prepare_eot_def main_loop_policy_cong)
  with m have d: "snd (main s clk t0 reads) = snd (main (s\<lparr>EOT_HEX := []\<rparr>) clk t0 reads)"
    by simp
  have n: "eot (policy_of s None) = None" by (simp add: policy_of_def)
  have "\<forall>f\<in>set (written (start (policy_of s None) clk t0)). f_trigger f = ByIdle"
    by (simp add: start_state)
  from run_idle_only [OF n this]
  have i: "\<forall>f\<in>set (written (snd (main s clk t0 reads))). f_trigger f = ByIdle"
    by (simp add: m main_loop_def)
  have a: "chunk \<noteq> [] \<longrightarrow>
            step (policy_of s None) clk st (chunk, now) =
              st\<lparr>buf := buf st @ chunk, last_data := now\<rparr>"
    by (simp add: step_data_absent n eot_found_def)
  from p m d i a show ?thesis by blast
qed

theorem marker_fallback_witness:
  "unhexlify (EOT_HEX (sample_settings ''0G'')) = Inl ValueError \<and>
   main (sample_settings ''0G'') sample_clock 0 [([0x41, 4, 0x42], 1), ([], 3)] =
     ([AVISO_EOT_HEX_no_es_valido ''0G''],
      main_loop (policy_of (sample_settings ''0G'') None) sample_clock 0
        [([0x41, 4, 0x42], 1), ([], 3)]) \<and>
   written (main_loop (policy_of (sample_settings ''0G'') None) sample_clock 0
              [([0x41, 4, 0x42], 1), ([], 3)]) =
     [\<lparr>f_trigger = ByIdle,
       f_path = new_batch_path ''/var/senaite/inbox/fuji500'' (sample_clock 0),
       f_data = [0x41, 4, 0x42]\<rparr>]"
proof -
  have u: "unhexlify (EOT_HEX (sample_settings ''0G'')) = Inl ValueError"
    by (simp add: sample_settings_def unhexlify_def hex_val_def)
  have h: "EOT_HEX (sample_settings ''0G'') = ''0G''"
    by (simp add: sample_settings_def)
  from marker_fallback [OF u, of sample_clock 0 "[([0x41, 4, 0x42], 1), ([], 3)]"]
  have m: "main (sample_settings ''0G'') sample_clock 0 [([0x41, 4, 0x42], 1), ([], 3)] =
     ([AVISO_EOT_HEX_no_es_valido ''0G''],
      main_loop (policy_of (sample_settings ''0G'') None) sample_clock 0
        [([0x41, 4, 0x42], 1), ([], 3)])"
    unfolding h by blast
  have w: "written (main_loop (policy_of (sample_settings ''0G'') None) sample_clock 0
              [([0x41, 4, 0x42], 1), ([], 3)]) =
     [\<lparr>f_trigger = ByIdle,
       f_path = new_batch_path ''/var/senaite/inbox/fuji500'' (sample_clock 0),
       f_data = [0x41, 4, 0x42]\<rparr>]"
    by (simp add: main_loop_def start_def step_def on_data_def on_timeout_def eot_found_def
          policy_of_def sample_settings_def rotate_path_def write_batch_def Let_def)
  from u m w show ?thesis by blast
qed

text \<open>
  C8 (numeric-configuration fallback), as amended. Where the text of the stop bits is
  read as a number, the settings load, and: a baud rate, a number of data bits, a read
  timeout or an idle threshold whose text is malformed (\<^verbatim>\<open>int\<close> or \<^verbatim>\<open>float\<close> raises on
  it) takes its default, 9600, 8, 2.0 or 1.5; a number of data bits that is not 5, 6, 7
  or 8 opens the link with eight data bits; a baud rate, a read timeout or an idle
  threshold whose text is read as a number keeps that number, whatever it is. Nothing is
  said of the stop bits. This holds whatever \<^verbatim>\<open>int\<close>, \<^verbatim>\<open>float\<close>, \<^verbatim>\<open>str\<close> and
  \<^verbatim>\<open>strip\<close> do on the texts.
\<close>

theorem numeric_fallback:
  assumes "float_of py (environ_get env ''FUJI500_STOPBITS'' ''1'') = Some sb"
  shows "\<exists>s. load_settings py env = Inr s \<and>
     (env ''FUJI500_BAUD'' = Some t1 \<and> int_of py t1 = None \<longrightarrow> BAUD s = 9600) \<and>
     (env ''FUJI500_BYTESIZE'' = Some t2 \<and> int_of py t2 = None \<longrightarrow>
        BYTESIZE s = 8 \<and> fst (serial_params s) = EIGHTBITS) \<and>
     (env ''FUJI500_TIMEOUT'' = Some t3 \<and> float_of py t3 = None \<longrightarrow> TIMEOUT s = 2.0) \<and>
     (env ''FUJI500_IDLE_SECONDS'' = Some t4 \<and> float_of py t4 = None \<longrightarrow>
        IDLE_SECONDS s = 1.5) \<and>
     (env ''FUJI500_BYTESIZE'' = Some t2 \<and> int_of py t2 = Some n \<and> n \<notin> {5, 6, 7, 8} \<longrightarrow>
        fst (serial_params s) = EIGHTBITS) \<and>
     (env ''FUJI500_BAUD'' = Some t1 \<and> int_of py t1 = Some v \<longrightarrow> BAUD s = v) \<and>
     (env ''FUJI500_TIMEOUT'' = Some t3 \<and> float_of py t3 = Some x \<longrightarrow> TIMEOUT s = x) \<and>
     (env ''FUJI500_IDLE_SECONDS'' = Some t4 \<and> float_of py t4 = Some y \<longrightarrow>
        IDLE_SECONDS s = y)"
proof -
  from assms load_settings_ok [of py env sb]
  obtain s where l: "load_settings py env = Inr s"
    by auto
  note f = load_settings_fields [OF l]
  have 1: "env ''FUJI500_BAUD'' = Some t1 \<and> int_of py t1 = None \<longrightarrow> BAUD s = 9600"
    by (simp add: f get_env_int_malformed)
  have 2: "env ''FUJI500_BYTESIZE'' = Some t2 \<and> int_of py t2 = None \<longrightarrow>
        BYTESIZE s = 8 \<and> fst (serial_params s) = EIGHTBITS"
    by (simp add: f get_env_int_malformed serial_params_bytesize)
  have 3: "env ''FUJI500_TIMEOUT'' = Some t3 \<and> float_of py t3 = None \<longrightarrow> TIMEOUT s = 2.0"
    by (simp add: f get_env_float_malformed)
  have 4: "env ''FUJI500_IDLE_SECONDS'' = Some t4 \<and> float_of py t4 = None \<longrightarrow>
        IDLE_SECONDS s = 1.5"
    by (simp add: f get_env_float_malformed)
  have 5: "env ''FUJI500_BYTESIZE'' = Some t2 \<and> int_of py t2 = Some n \<and> n \<notin> {5, 6, 7, 8} \<longrightarrow>
        fst (serial_params s) = EIGHTBITS"
    by (simp add: f get_env_int_parsed serial_params_bytesize)
  have 6: "env ''FUJI500_BAUD'' = Some t1 \<and> int_of py t1 = Some v \<longrightarrow> BAUD s = v"
    by (simp add: f get_env_int_parsed)
  have 7: "env ''FUJI500_TIMEOUT'' = Some t3 \<and> float_of py t3 = Some x \<longrightarrow> TIMEOUT s = x"
    by (simp add: f get_env_float_parsed)
  have 8: "env ''FUJI500_IDLE_SECONDS'' = Some t4 \<and> float_of py t4 = Some y \<longrightarrow>
        IDLE_SECONDS s = y"
    by (simp add: f get_env_float_parsed)
  show ?thesis
    by (intro exI [of _ s] conjI l 1 2 3 4 5 6 7 8)
qed

theorem numeric_fallback_witness:
  "float_of sample_builtins (environ_get malformed_environ ''FUJI500_STOPBITS'' ''1'') = Some 1 \<and>
   malformed_environ ''FUJI500_BAUD'' = Some ''fast'' \<and>
   int_of sample_builtins ''fast'' = None \<and>
   malformed_environ ''FUJI500_TIMEOUT'' = Some ''soon'' \<and>
   float_of sample_builtins ''soon'' = None \<and>
   malformed_environ ''FUJI500_BYTESIZE'' = Some ''9'' \<and>
   int_of sample_builtins ''9'' = Some 9 \<and>
   (9 :: int) \<notin> {5, 6, 7, 8} \<and>
   (\<exists>s. load_settings sample_builtins malformed_environ = Inr s \<and>
        BAUD s = 9600 \<and> TIMEOUT s = 2.0 \<and> fst (serial_params s) = EIGHTBITS)"
proof -
  have h: "float_of sample_builtins (environ_get malformed_environ ''FUJI500_STOPBITS'' ''1'') =
             Some 1"
    by (simp add: sample_builtins_fields sample_float_def environ_get_def malformed_environ_def)
  have e: "malformed_environ ''FUJI500_BAUD'' = Some ''fast''"
    "malformed_environ ''FUJI500_TIMEOUT'' = Some ''soon''"
    "malformed_environ ''FUJI500_BYTESIZE'' = Some ''9''"
    by (simp_all add: malformed_environ_def)
  have p: "int_of sample_builtins ''fast'' = None" "int_of sample_builtins ''9'' = Some 9"
    by (simp_all add: sample_builtins_fields sample_int_def)
  have q: "float_of sample_builtins ''soon'' = None"
    by (simp add: sample_builtins_fields sample_float_def)
  have r: "(9 :: int) \<notin> {5, 6, 7, 8}" by simp
  from h numeric_fallback [where py = sample_builtins and env = malformed_environ
      and sb = 1 and ?t1.0 = "''fast''" and ?t2.0 = "''9''" and ?t3.0 = "''soon''" and n = 9]
  have "\<exists>s. load_settings sample_builtins malformed_environ = Inr s \<and>
        BAUD s = 9600 \<and> TIMEOUT s = 2.0 \<and> fst (serial_params s) = EIGHTBITS"
    using e p q r by blast
  with h e p q r show ?thesis by blast
qed

text \<open>
  The claim as it was stated, on the baud rate \<open>-1\<close>, which \<^verbatim>\<open>int\<close> reads as the number
  \<open>-1\<close>: the settings load and are those of the empty environment but for the baud rate,
  which is \<open>-1\<close> and not the default 9600.
\<close>

theorem numeric_fallback_counterexample:
  "negative_baud_environ ''FUJI500_BAUD'' = Some ''-1'' \<and>
   int_of sample_builtins ''-1'' = Some (- 1) \<and>
   load_settings sample_builtins negative_baud_environ =
     Inr ((sample_settings [])\<lparr>BAUD := - 1\<rparr>) \<and>
   BAUD ((sample_settings [])\<lparr>BAUD := - 1\<rparr>) \<noteq> 9600"
  by (simp add: load_settings_def negative_baud_environ_def sample_builtins_fields
        sample_int_def sample_float_def sample_float_str_def
        sample_settings_def environ_get_def get_env_int_def get_env_float_def py_str_defaults
        strip_def py_isspace_def upper_def upper_char_def)

text \<open>
  C5 (batch-name uniqueness) fails on the code. A name is the reading of the clock at the
  microsecond, so two readings in the same microsecond give the same name. With the marker
  \<^verbatim>\<open>0x04\<close>, one read of \<^verbatim>\<open>A\x04B\x04C\x04\<close> and a clock whose readings after the first
  and after the second flush are the same, the batches \<^verbatim>\<open>B\<close> and \<^verbatim>\<open>C\<close> are appended
  to one file.
\<close>

theorem batch_names_collide:
  "written (main_loop (sample_policy (Some [4])) coarse_clock 0
              [([0x41, 4, 0x42, 4, 0x43, 4], 1)]) =
     [\<lparr>f_trigger = ByEOT,
       f_path = ''/var/senaite/inbox/fuji500/fuji500_20240102_030405_000000.raw'',
       f_data = [0x41]\<rparr>,
      \<lparr>f_trigger = ByEOT,
       f_path = ''/var/senaite/inbox/fuji500/fuji500_20240102_030405_001000.raw'',
       f_data = [0x42]\<rparr>,
      \<lparr>f_trigger = ByEOT,
       f_path = ''/var/senaite/inbox/fuji500/fuji500_20240102_030405_001000.raw'',
       f_data = [0x43]\<rparr>] \<and>
   file_content
     (written (main_loop (sample_policy (Some [4])) coarse_clock 0
                 [([0x41, 4, 0x42, 4, 0x43, 4], 1)]))
     ''/var/senaite/inbox/fuji500/fuji500_20240102_030405_001000.raw'' = [0x42, 0x43]"
  by (simp add: main_loop_def start_def step_def on_data_def eot_found_def sublist_Cons_right
        Let_def rotate_path_def write_batch_def sample_policy_def coarse_clock_def
        sample_clock_def new_batch_path_def path_join_def strftime_def pad2_def pad4_def
        pad6_def digit_def file_content_def)

end
